theory Spec2Isabelle
  imports Complex_Main "HOL-Library.Sublist"
begin

section \<open>Resource lifecycle and resilience subsystem\<close>

text \<open>
  A shallow embedding of the TypeScript sources \<^verbatim>\<open>utils/errors.ts\<close> (error taxonomy,
  \<^verbatim>\<open>ErrorHandler.retry\<close>, \<^verbatim>\<open>ErrorHandler.createCircuitBreaker\<close>),
  \<^verbatim>\<open>utils/resource-manager.ts\<close> (\<^verbatim>\<open>ResourceManager\<close>, \<^verbatim>\<open>ConnectionPool\<close>),
  \<^verbatim>\<open>config/security.ts\<close> (\<^verbatim>\<open>RateLimiter\<close>) and \<^verbatim>\<open>monitoring/metrics.ts\<close>
  (\<^verbatim>\<open>MetricsCollector\<close>).

  Conventions. Mutable objects become records that are passed in and returned.
  A thrown exception or a rejected promise is \<open>Inl\<close> of a sum, a normal return or a
  resolved promise is \<open>Inr\<close>. \<^verbatim>\<open>Date.now()\<close> is an \<open>int\<close> argument (milliseconds).
  A JavaScript \<^verbatim>\<open>Map\<close> is an association list in insertion order. What the environment
  does (whether an operation throws, how long it takes, which id is generated) is an
  explicit argument. The code runs on one thread, so what lies between two awaits is one
  step. The circuit-breaker wrapper, \<^verbatim>\<open>ConnectionPool.acquire\<close> and the pool's warm-up
  test shared state before an await and update it after, and are split into their steps;
  the ledger's methods are taken as one step each.
\<close>

subsection \<open>Error taxonomy (\<^verbatim>\<open>utils/errors.ts\<close>)\<close>

text \<open>
  The class of a thrown object decides every \<^verbatim>\<open>instanceof\<close> test. All custom classes
  extend \<^verbatim>\<open>BaseError\<close> directly, so \<^verbatim>\<open>e instanceof TimeoutError\<close> is equality of classes.
  \<open>PlainError\<close> is the built-in \<^verbatim>\<open>Error\<close>.
\<close>

datatype error_class =
    PlainError
  | BaseError
  | ValidationError
  | AuthenticationError
  | AuthorizationError
  | NotFoundError
  | ConflictError
  | RateLimitError
  | ResourceExhaustedError
  | TimeoutError
  | ExternalServiceError
  | DatabaseError

datatype js_error = JsError (error_class: error_class) (message: string)

text \<open>Decimal rendering of a number inside a template literal.\<close>

fun show_nat :: "nat \<Rightarrow> string" where
  "show_nat n =
     (if n < 10 then [char_of (48 + n)]
      else show_nat (n div 10) @ [char_of (48 + n mod 10)])"

declare show_nat.simps [simp del]

definition show_int :: "int \<Rightarrow> string" where
  "show_int i = (if i < 0 then CHR ''-'' # show_nat (nat (- i)) else show_nat (nat i))"

text \<open>\<^verbatim>\<open>new TimeoutError(operation, timeoutMs)\<close> and
  \<^verbatim>\<open>new ResourceExhaustedError(resourceType, limit, current)\<close> build their messages.\<close>

definition new_TimeoutError :: "string \<Rightarrow> int \<Rightarrow> js_error" where
  "new_TimeoutError operation timeoutMs =
     JsError TimeoutError
       (''Operation '' @ [CHR 0x27] @ operation @ [CHR 0x27] @ '' timed out after ''
          @ show_int timeoutMs @ ''ms'')"

definition new_ResourceExhaustedError :: "string \<Rightarrow> int \<Rightarrow> int \<Rightarrow> js_error" where
  "new_ResourceExhaustedError resourceType limit current =
     JsError ResourceExhaustedError
       (''Resource limit exceeded for '' @ resourceType @ '': ''
          @ show_int current @ ''/'' @ show_int limit)"

text \<open>\<^verbatim>\<open>String.prototype.includes\<close>: the needle occurs as a contiguous substring.\<close>

fun str_includes :: "string \<Rightarrow> string \<Rightarrow> bool" where
  "str_includes [] needle = (needle = [])"
| "str_includes (c # cs) needle = (prefix needle (c # cs) \<or> str_includes cs needle)"

subsection \<open>Rate limiter (\<^verbatim>\<open>config/security.ts\<close>)\<close>

record rate_limiter =
  requests :: "string \<rightharpoonup> int list"
  windowMs :: int
  maxRequests :: int

definition new_RateLimiter :: "int \<Rightarrow> int \<Rightarrow> rate_limiter" where
  "new_RateLimiter w m = \<lparr>requests = Map.empty, windowMs = w, maxRequests = m\<rparr>"

text \<open>
  \<^verbatim>\<open>isAllowed(identifier)\<close> at time \<open>now\<close>. \<^verbatim>\<open>Array.prototype.filter\<close> builds a new array,
  so the stored array is replaced only by the final \<^verbatim>\<open>this.requests.set\<close>.
\<close>

definition recent :: "rate_limiter \<Rightarrow> int \<Rightarrow> int list \<Rightarrow> int list" where
  "recent rl now ts = filter (\<lambda>time. now - time < windowMs rl) ts"

definition isAllowed :: "rate_limiter \<Rightarrow> int \<Rightarrow> string \<Rightarrow> bool \<times> rate_limiter" where
  "isAllowed rl now identifier =
     (let reqs = (case requests rl identifier of None \<Rightarrow> [] | Some ts \<Rightarrow> ts);
          recentRequests = recent rl now reqs
      in if maxRequests rl \<le> int (length recentRequests) then (False, rl)
         else (True, rl\<lparr>requests := (requests rl)(identifier \<mapsto> recentRequests @ [now])\<rparr>))"

text \<open>The periodic sweep \<^verbatim>\<open>cleanup()\<close>, run by \<^verbatim>\<open>setInterval\<close> every \<^verbatim>\<open>windowMs\<close>.\<close>

definition limiter_cleanup :: "rate_limiter \<Rightarrow> int \<Rightarrow> rate_limiter" where
  "limiter_cleanup rl now =
     rl\<lparr>requests := (\<lambda>identifier.
           case requests rl identifier of
             None \<Rightarrow> None
           | Some ts \<Rightarrow> (if recent rl now ts = [] then None else Some (recent rl now ts)))\<rparr>"

text \<open>Consecutive calls for one identifier at the given times: the answers and the
  final limiter.\<close>

fun isAllowed_calls :: "rate_limiter \<Rightarrow> string \<Rightarrow> int list \<Rightarrow> bool list \<times> rate_limiter" where
  "isAllowed_calls rl identifier [] = ([], rl)"
| "isAllowed_calls rl identifier (now # later) =
     (let (ok, rl') = isAllowed rl now identifier;
          (oks, rl'') = isAllowed_calls rl' identifier later
      in (ok # oks, rl''))"

subsection \<open>JavaScript \<^verbatim>\<open>Map\<close> with string keys\<close>

text \<open>
  Entries are kept in insertion order. \<^verbatim>\<open>set\<close> on a key that is present replaces the
  value where it stands and does not change \<^verbatim>\<open>size\<close>.
\<close>

type_synonym 'v js_map = "(string \<times> 'v) list"

fun map_get :: "'v js_map \<Rightarrow> string \<Rightarrow> 'v option" where
  "map_get [] k = None"
| "map_get ((k', v) # m) k = (if k' = k then Some v else map_get m k)"

fun map_set :: "string \<Rightarrow> 'v \<Rightarrow> 'v js_map \<Rightarrow> 'v js_map" where
  "map_set k v [] = [(k, v)]"
| "map_set k v ((k', v') # m) = (if k' = k then (k, v) # m else (k', v') # map_set k v m)"

fun map_delete :: "string \<Rightarrow> 'v js_map \<Rightarrow> 'v js_map" where
  "map_delete k [] = []"
| "map_delete k ((k', v) # m) = (if k' = k then m else (k', v) # map_delete k m)"

definition map_size :: "'v js_map \<Rightarrow> int" where
  "map_size m = int (length m)"

subsection \<open>Resource ledger (\<^verbatim>\<open>ResourceManager\<close> in \<^verbatim>\<open>utils/resource-manager.ts\<close>)\<close>

text \<open>
  A \<^verbatim>\<open>ChildProcess\<close>: its \<^verbatim>\<open>killed\<close> flag, and whether \<^verbatim>\<open>kill(signal)\<close> throws.
  A successful \<^verbatim>\<open>kill\<close> sets \<^verbatim>\<open>killed\<close>.
\<close>

record child_process =
  killed :: bool
  kill_throws :: "js_error option"

definition kill :: "child_process \<Rightarrow> js_error + child_process" where
  "kill p = (case kill_throws p of Some e \<Rightarrow> Inl e | None \<Rightarrow> Inr (p\<lparr>killed := True\<rparr>))"

text \<open>
  Connections and file handles are typed \<^verbatim>\<open>any\<close>. What the ledger looks at: whether the
  value is truthy, which of \<^verbatim>\<open>close\<close>, \<^verbatim>\<open>end\<close>, \<^verbatim>\<open>disconnect\<close> is a function, and whether
  the awaited call throws or rejects. \<open>tag\<close> tells handles apart.
\<close>

datatype js_method = Absent | Returns | Throws js_error

record handle =
  tag :: nat
  truthy :: bool
  close_m :: js_method
  end_m :: js_method
  disconnect_m :: js_method

type_synonym timer = nat

record limits =
  maxProcesses :: int
  maxConnections :: int
  maxFileHandles :: int
  maxTimers :: int

text \<open>\<open>logged\<close> collects the \<^verbatim>\<open>logger.error(message, error, ...)\<close> calls.\<close>

record resource_manager =
  processes :: "child_process js_map"
  timers :: "timer js_map"
  connections :: "handle js_map"
  fileHandles :: "handle js_map"
  memoryUsage :: real
  limits :: limits
  logged :: "(string \<times> js_error) list"

definition new_ResourceManager :: resource_manager where
  "new_ResourceManager =
     \<lparr>processes = [], timers = [], connections = [], fileHandles = [], memoryUsage = 0,
      limits = \<lparr>maxProcesses = 10, maxConnections = 100, maxFileHandles = 50, maxTimers = 100\<rparr>,
      logged = []\<rparr>"

type_synonym 's step = "(js_error + unit) \<times> 's"

definition registerProcess :: "resource_manager \<Rightarrow> string \<Rightarrow> child_process \<Rightarrow> resource_manager step" where
  "registerProcess rm ident p =
     (if maxProcesses (limits rm) \<le> map_size (processes rm)
      then (Inl (JsError PlainError ''Maximum number of processes reached''), rm)
      else (Inr (), rm\<lparr>processes := map_set ident p (processes rm)\<rparr>))"

text \<open>
  \<^verbatim>\<open>unregisterProcess\<close> is also what the \<^verbatim>\<open>exit\<close> listener installed by
  \<^verbatim>\<open>registerProcess\<close> runs. \<^verbatim>\<open>kill\<close> is not inside a \<^verbatim>\<open>try\<close> here: if it throws, the entry
  stays.
\<close>

definition unregisterProcess :: "resource_manager \<Rightarrow> string \<Rightarrow> resource_manager step" where
  "unregisterProcess rm ident =
     (case map_get (processes rm) ident of
        None \<Rightarrow> (Inr (), rm)
      | Some p \<Rightarrow>
          (if \<not> killed p then
             (case kill p of
                Inl e \<Rightarrow> (Inl e, rm)
              | Inr p' \<Rightarrow> (Inr (), rm\<lparr>processes := map_delete ident (processes rm)\<rparr>))
           else (Inr (), rm\<lparr>processes := map_delete ident (processes rm)\<rparr>)))"

definition registerTimer :: "resource_manager \<Rightarrow> string \<Rightarrow> timer \<Rightarrow> resource_manager step" where
  "registerTimer rm ident t =
     (if maxTimers (limits rm) \<le> map_size (timers rm)
      then (Inl (JsError PlainError ''Maximum number of timers reached''), rm)
      else (Inr (), rm\<lparr>timers := map_set ident t (timers rm)\<rparr>))"

definition unregisterTimer :: "resource_manager \<Rightarrow> string \<Rightarrow> resource_manager step" where
  "unregisterTimer rm ident =
     (case map_get (timers rm) ident of
        None \<Rightarrow> (Inr (), rm)
      | Some t \<Rightarrow> (Inr (), rm\<lparr>timers := map_delete ident (timers rm)\<rparr>))"

definition registerConnection :: "resource_manager \<Rightarrow> string \<Rightarrow> handle \<Rightarrow> resource_manager step" where
  "registerConnection rm ident c =
     (if maxConnections (limits rm) \<le> map_size (connections rm)
      then (Inl (JsError PlainError ''Maximum number of connections reached''), rm)
      else (Inr (), rm\<lparr>connections := map_set ident c (connections rm)\<rparr>))"

text \<open>The \<^verbatim>\<open>if / else if\<close> chain over the close methods, inside the \<^verbatim>\<open>try\<close>.\<close>

definition close_connection :: "handle \<Rightarrow> js_error + unit" where
  "close_connection c =
     (case close_m c of
        Returns \<Rightarrow> Inr ()
      | Throws e \<Rightarrow> Inl e
      | Absent \<Rightarrow>
          (case end_m c of
             Returns \<Rightarrow> Inr ()
           | Throws e \<Rightarrow> Inl e
           | Absent \<Rightarrow>
               (case disconnect_m c of
                  Returns \<Rightarrow> Inr ()
                | Throws e \<Rightarrow> Inl e
                | Absent \<Rightarrow> Inr ())))"

definition unregisterConnection :: "resource_manager \<Rightarrow> string \<Rightarrow> resource_manager step" where
  "unregisterConnection rm ident =
     (case map_get (connections rm) ident of
        None \<Rightarrow> (Inr (), rm)
      | Some c \<Rightarrow>
          (if truthy c then
             (let rm1 = (case close_connection c of
                           Inl e \<Rightarrow> rm\<lparr>logged := logged rm @ [(''Error closing connection'', e)]\<rparr>
                         | Inr _ \<Rightarrow> rm)
              in (Inr (), rm1\<lparr>connections := map_delete ident (connections rm1)\<rparr>))
           else (Inr (), rm)))"

definition registerFileHandle :: "resource_manager \<Rightarrow> string \<Rightarrow> handle \<Rightarrow> resource_manager step" where
  "registerFileHandle rm ident h =
     (if maxFileHandles (limits rm) \<le> map_size (fileHandles rm)
      then (Inl (JsError PlainError ''Maximum number of file handles reached''), rm)
      else (Inr (), rm\<lparr>fileHandles := map_set ident h (fileHandles rm)\<rparr>))"

definition close_file :: "handle \<Rightarrow> js_error + unit" where
  "close_file h = (case close_m h of Returns \<Rightarrow> Inr () | Throws e \<Rightarrow> Inl e | Absent \<Rightarrow> Inr ())"

definition unregisterFileHandle :: "resource_manager \<Rightarrow> string \<Rightarrow> resource_manager step" where
  "unregisterFileHandle rm ident =
     (case map_get (fileHandles rm) ident of
        None \<Rightarrow> (Inr (), rm)
      | Some h \<Rightarrow>
          (if truthy h then
             (let rm1 = (case close_file h of
                           Inl e \<Rightarrow> rm\<lparr>logged := logged rm @ [(''Error closing file handle'', e)]\<rparr>
                         | Inr _ \<Rightarrow> rm)
              in (Inr (), rm1\<lparr>fileHandles := map_delete ident (fileHandles rm1)\<rparr>))
           else (Inr (), rm)))"

record usage =
  usage_processes :: int
  usage_connections :: int
  usage_fileHandles :: int
  usage_timers :: int
  usage_memoryMB :: real

definition getUsage :: "resource_manager \<Rightarrow> usage" where
  "getUsage rm =
     \<lparr>usage_processes = map_size (processes rm),
      usage_connections = map_size (connections rm),
      usage_fileHandles = map_size (fileHandles rm),
      usage_timers = map_size (timers rm),
      usage_memoryMB = memoryUsage rm\<rparr>"

text \<open>
  \<^verbatim>\<open>cleanup()\<close>. The loop over the processes has its own \<^verbatim>\<open>try / catch\<close>; a successful
  \<^verbatim>\<open>kill\<close> changes the process object that the map still holds. \<^verbatim>\<open>clearTimeout\<close> has
  no effect on the ledger. The connections and the file handles are unregistered over a
  snapshot of the keys, and the promises are awaited through \<^verbatim>\<open>Promise.allSettled\<close>.
\<close>

fun kill_all :: "child_process js_map \<Rightarrow> resource_manager \<Rightarrow> resource_manager" where
  "kill_all [] rm = rm"
| "kill_all ((ident, p) # rest) rm =
     kill_all rest
       (if \<not> killed p then
          (case kill p of
             Inl e \<Rightarrow> rm\<lparr>logged := logged rm @ [(''Error killing process'', e)]\<rparr>
           | Inr p' \<Rightarrow> rm\<lparr>processes := map_set ident p' (processes rm)\<rparr>)
        else rm)"

fun unregister_each ::
  "(resource_manager \<Rightarrow> string \<Rightarrow> resource_manager step) \<Rightarrow> string list \<Rightarrow> resource_manager
     \<Rightarrow> (js_error + unit) list \<times> resource_manager" where
  "unregister_each unregister [] rm = ([], rm)"
| "unregister_each unregister (ident # rest) rm =
     (let (r, rm1) = unregister rm ident;
          (rs, rm2) = unregister_each unregister rest rm1
      in (r # rs, rm2))"

text \<open>\<^verbatim>\<open>Promise.allSettled\<close> fulfils with the list of outcomes whatever they are.\<close>

definition allSettled :: "(js_error + 'a) list \<Rightarrow> js_error + (js_error + 'a) list" where
  "allSettled promises = Inr promises"

definition cleanup :: "resource_manager \<Rightarrow> resource_manager step" where
  "cleanup rm =
     (let rm1 = kill_all (processes rm) rm;
          (connectionPromises, rm2) =
             unregister_each unregisterConnection (map fst (connections rm1)) rm1
      in case allSettled connectionPromises of
           Inl e \<Rightarrow> (Inl e, rm2)
         | Inr _ \<Rightarrow>
             (let (filePromises, rm3) =
                    unregister_each unregisterFileHandle (map fst (fileHandles rm2)) rm2
              in case allSettled filePromises of
                   Inl e \<Rightarrow> (Inl e, rm3)
                 | Inr _ \<Rightarrow>
                     (Inr (), rm3\<lparr>processes := [], timers := [], connections := [],
                                 fileHandles := []\<rparr>)))"

text \<open>The calls a client (or the \<^verbatim>\<open>exit\<close> listener, or a signal handler) can make.\<close>

datatype ledger_call =
    RegisterProcess string child_process
  | UnregisterProcess string
  | RegisterTimer string timer
  | UnregisterTimer string
  | RegisterConnection string handle
  | UnregisterConnection string
  | RegisterFileHandle string handle
  | UnregisterFileHandle string
  | Cleanup

fun ledger_step :: "resource_manager \<Rightarrow> ledger_call \<Rightarrow> resource_manager step" where
  "ledger_step rm (RegisterProcess ident p) = registerProcess rm ident p"
| "ledger_step rm (UnregisterProcess ident) = unregisterProcess rm ident"
| "ledger_step rm (RegisterTimer ident t) = registerTimer rm ident t"
| "ledger_step rm (UnregisterTimer ident) = unregisterTimer rm ident"
| "ledger_step rm (RegisterConnection ident c) = registerConnection rm ident c"
| "ledger_step rm (UnregisterConnection ident) = unregisterConnection rm ident"
| "ledger_step rm (RegisterFileHandle ident h) = registerFileHandle rm ident h"
| "ledger_step rm (UnregisterFileHandle ident) = unregisterFileHandle rm ident"
| "ledger_step rm Cleanup = cleanup rm"

text \<open>A call that throws hands the error to its caller; the ledger goes on with the
  state the call left.\<close>

fun ledger_run :: "resource_manager \<Rightarrow> ledger_call list \<Rightarrow> resource_manager" where
  "ledger_run rm [] = rm"
| "ledger_run rm (c # cs) = ledger_run (snd (ledger_step rm c)) cs"

definition within_limits :: "resource_manager \<Rightarrow> bool" where
  "within_limits rm \<longleftrightarrow>
     usage_processes (getUsage rm) \<le> maxProcesses (limits rm) \<and>
     usage_timers (getUsage rm) \<le> maxTimers (limits rm) \<and>
     usage_connections (getUsage rm) \<le> maxConnections (limits rm) \<and>
     usage_fileHandles (getUsage rm) \<le> maxFileHandles (limits rm)"

text \<open>The four resource kinds, each with its count as \<^verbatim>\<open>getUsage()\<close> reports it, its cap,
  and the message of the error that its \<^verbatim>\<open>register\<close> method throws at the cap.\<close>

datatype resource_kind = Process | Timer | Connection | FileHandle

fun kind_count :: "resource_kind \<Rightarrow> resource_manager \<Rightarrow> int" where
  "kind_count Process rm = usage_processes (getUsage rm)"
| "kind_count Timer rm = usage_timers (getUsage rm)"
| "kind_count Connection rm = usage_connections (getUsage rm)"
| "kind_count FileHandle rm = usage_fileHandles (getUsage rm)"

fun kind_cap :: "resource_kind \<Rightarrow> resource_manager \<Rightarrow> int" where
  "kind_cap Process rm = maxProcesses (limits rm)"
| "kind_cap Timer rm = maxTimers (limits rm)"
| "kind_cap Connection rm = maxConnections (limits rm)"
| "kind_cap FileHandle rm = maxFileHandles (limits rm)"

fun kind_message :: "resource_kind \<Rightarrow> string" where
  "kind_message Process = ''Maximum number of processes reached''"
| "kind_message Timer = ''Maximum number of timers reached''"
| "kind_message Connection = ''Maximum number of connections reached''"
| "kind_message FileHandle = ''Maximum number of file handles reached''"

fun register_kind :: "ledger_call \<Rightarrow> resource_kind option" where
  "register_kind (RegisterProcess ident p) = Some Process"
| "register_kind (RegisterTimer ident t) = Some Timer"
| "register_kind (RegisterConnection ident c) = Some Connection"
| "register_kind (RegisterFileHandle ident h) = Some FileHandle"
| "register_kind other = None"

text \<open>\<^verbatim>\<open>limits\<close> is a \<^verbatim>\<open>readonly\<close> field holding the constants of the class body.\<close>

definition fixed_limits :: "resource_manager \<Rightarrow> bool" where
  "fixed_limits rm \<longleftrightarrow>
     limits rm =
       \<lparr>maxProcesses = 10, maxConnections = 100, maxFileHandles = 50, maxTimers = 100\<rparr>"

definition throws_class :: "error_class \<Rightarrow> js_error + 'a \<Rightarrow> bool" where
  "throws_class cls r = (case r of Inl e \<Rightarrow> error_class e = cls | Inr _ \<Rightarrow> False)"

subsection \<open>Connection pool (\<^verbatim>\<open>ConnectionPool\<close> in \<^verbatim>\<open>utils/resource-manager.ts\<close>)\<close>

text \<open>The sizes are JavaScript numbers that are only compared with counts, so they are
  any real number.\<close>

record connection_pool =
  available :: "handle list"
  inUse :: "handle js_map"
  minSize :: real
  maxSize :: real

text \<open>
  The constructor: \<^verbatim>\<open>options.minSize || 2\<close> and \<^verbatim>\<open>options.maxSize || 10\<close>. An option that
  is left out (\<open>None\<close>; \<^verbatim>\<open>NaN\<close> behaves alike) or is \<^verbatim>\<open>0\<close> is falsy and takes the
  default. The constructor then calls \<^verbatim>\<open>initialize()\<close> and returns without awaiting it.
\<close>

definition or_default :: "real option \<Rightarrow> real \<Rightarrow> real" where
  "or_default opt d = (case opt of None \<Rightarrow> d | Some n \<Rightarrow> (if n = 0 then d else n))"

definition construct_pool :: "real option \<Rightarrow> real option \<Rightarrow> connection_pool" where
  "construct_pool opt_minSize opt_maxSize =
     \<lparr>available = [], inUse = [],
      minSize = or_default opt_minSize 2, maxSize = or_default opt_maxSize 10\<rparr>"

text \<open>
  The end of \<^verbatim>\<open>initialize()\<close>, after \<^verbatim>\<open>await Promise.allSettled(promises)\<close>: the fulfilled
  values are pushed. The loop \<^verbatim>\<open>for (i = 0; i < minSize; i++)\<close> has run once for every
  whole number \<open>i\<close> from 0 that is below \<^verbatim>\<open>minSize\<close>, that is \<open>\<lceil>minSize\<rceil>\<close> times (twice for
  1.5, never for a negative size); \<open>createFn i\<close> is the outcome of its \<open>i\<close>-th
  \<^verbatim>\<open>createConnection()\<close>. This step runs whenever the creations have settled: calls of
  \<^verbatim>\<open>acquire\<close> and \<^verbatim>\<open>release\<close> that are made earlier act on the pool as constructed.
\<close>

definition initialize :: "(nat \<Rightarrow> js_error + handle) \<Rightarrow> connection_pool \<Rightarrow> connection_pool" where
  "initialize createFn pool =
     pool\<lparr>available := available pool @
             concat (map (\<lambda>i. case createFn i of Inl e \<Rightarrow> [] | Inr c \<Rightarrow> [c])
                       [0 ..< nat \<lceil>minSize pool\<rceil>])\<rparr>"

text \<open>A pool whose warm-up has finished before it is first used.\<close>

definition new_ConnectionPool ::
  "real option \<Rightarrow> real option \<Rightarrow> (nat \<Rightarrow> js_error + handle) \<Rightarrow> connection_pool" where
  "new_ConnectionPool opt_minSize opt_maxSize createFn =
     initialize createFn (construct_pool opt_minSize opt_maxSize)"

text \<open>
  \<^verbatim>\<open>acquire()\<close> awaits \<^verbatim>\<open>createConnection()\<close> between its capacity test and the insertion
  into \<^verbatim>\<open>inUse\<close>, so a pass through it is up to two steps on the pool. \<open>ident\<close> is the
  generated id.

  \<open>acquire_begin\<close> runs from the start to the first await. It pops; when it has no
  connection and \<^verbatim>\<open>inUse.size < maxSize\<close> it starts a creation and ends with \<open>Creating\<close>.
  Otherwise it goes on without awaiting, through \<open>acquire_finish\<close>.

  \<open>acquire_finish\<close> is the code from \<^verbatim>\<open>if (!connection)\<close> on: without a connection the
  source sleeps 100 ms and calls \<^verbatim>\<open>acquire()\<close> afresh (\<open>Wait\<close>; the retry is a new
  pass, on whatever the pool is by then); with one it inserts and registers it.

  \<open>acquire_resume\<close> runs when the creation has settled with outcome \<open>created\<close>.
\<close>

datatype acquire_result = Acquired string handle | Wait | Failed js_error | Creating

definition acquire_finish ::
  "connection_pool \<times> resource_manager \<Rightarrow> string \<Rightarrow> handle option
     \<Rightarrow> acquire_result \<times> connection_pool \<times> resource_manager" where
  "acquire_finish s ident connection =
     (let (pool, rm) = s
      in case connection of
           None \<Rightarrow> (Wait, pool, rm)
         | Some c \<Rightarrow>
             (if \<not> truthy c then (Wait, pool, rm)
              else (let pool1 = pool\<lparr>inUse := map_set ident c (inUse pool)\<rparr>
                    in case registerConnection rm ident c of
                         (Inl e, rm') \<Rightarrow> (Failed e, pool1, rm')
                       | (Inr _, rm') \<Rightarrow> (Acquired ident c, pool1, rm'))))"

definition acquire_begin ::
  "connection_pool \<times> resource_manager \<Rightarrow> string
     \<Rightarrow> acquire_result \<times> connection_pool \<times> resource_manager" where
  "acquire_begin s ident =
     (let (pool, rm) = s;
          popped = (if available pool = [] then None else Some (last (available pool)));
          pool1 = pool\<lparr>available := butlast (available pool)\<rparr>;
          no_connection = (case popped of None \<Rightarrow> True | Some c \<Rightarrow> \<not> truthy c)
      in if no_connection \<and> real_of_int (map_size (inUse pool1)) < maxSize pool1
         then (Creating, pool1, rm)
         else acquire_finish (pool1, rm) ident popped)"

definition acquire_resume ::
  "connection_pool \<times> resource_manager \<Rightarrow> string \<Rightarrow> js_error + handle
     \<Rightarrow> acquire_result \<times> connection_pool \<times> resource_manager" where
  "acquire_resume s ident created =
     (case created of
        Inl e \<Rightarrow> (Failed e, s)
      | Inr c \<Rightarrow> acquire_finish s ident (Some c))"

text \<open>A pass through \<^verbatim>\<open>acquire()\<close> during which nothing else touches the pool: the
  creation, if one is started, settles with \<open>created\<close> before any other step.\<close>

definition acquire ::
  "connection_pool \<times> resource_manager \<Rightarrow> string \<Rightarrow> js_error + handle
     \<Rightarrow> acquire_result \<times> connection_pool \<times> resource_manager" where
  "acquire s ident created =
     (case acquire_begin s ident of
        (Creating, s1) \<Rightarrow> acquire_resume s1 ident created
      | (result, s1) \<Rightarrow> (result, s1))"

text \<open>
  \<^verbatim>\<open>release(id)\<close>; \<open>destroyed\<close> is the outcome of \<^verbatim>\<open>destroyFn(connection)\<close> should it be
  called. Its changes to the pool (\<^verbatim>\<open>inUse.delete\<close>, the test and the push) all come
  before its first await.
\<close>

definition release ::
  "connection_pool \<times> resource_manager \<Rightarrow> string \<Rightarrow> js_error + unit
     \<Rightarrow> (js_error + unit) \<times> connection_pool \<times> resource_manager" where
  "release s ident destroyed =
     (let (pool, rm) = s
      in case map_get (inUse pool) ident of
           None \<Rightarrow> (Inr (), pool, rm)
         | Some c \<Rightarrow>
             (if \<not> truthy c then (Inr (), pool, rm)
              else
                (let pool1 = pool\<lparr>inUse := map_delete ident (inUse pool)\<rparr>
                 in if real (length (available pool1)) < maxSize pool1 then
                      (let (r, rm') = unregisterConnection rm ident
                       in (r, pool1\<lparr>available := available pool1 @ [c]\<rparr>, rm'))
                    else
                      (case destroyed of
                         Inl e \<Rightarrow> (Inl e, pool1, rm)
                       | Inr _ \<Rightarrow>
                           (let (r, rm') = unregisterConnection rm ident
                            in (r, pool1, rm'))))))"

definition pool_invariant :: "connection_pool \<Rightarrow> bool" where
  "pool_invariant pool \<longleftrightarrow>
     real (length (available pool)) + real_of_int (map_size (inUse pool)) \<le> maxSize pool \<and>
     0 \<le> int (length (available pool))"

text \<open>Calls made one after the other, none overlapping another.\<close>

datatype pool_call = Acquire string "js_error + handle" | Release string "js_error + unit"

fun pool_step ::
  "connection_pool \<times> resource_manager \<Rightarrow> pool_call \<Rightarrow> connection_pool \<times> resource_manager" where
  "pool_step s (Acquire ident created) = snd (acquire s ident created)"
| "pool_step s (Release ident destroyed) = snd (release s ident destroyed)"

fun pool_run ::
  "connection_pool \<times> resource_manager \<Rightarrow> pool_call list \<Rightarrow> connection_pool \<times> resource_manager" where
  "pool_run s [] = s"
| "pool_run s (c # cs) = pool_run (pool_step s c) cs"

subsection \<open>Retry with backoff (\<^verbatim>\<open>ErrorHandler.retry\<close>, \<^verbatim>\<open>ErrorHandler.shouldRetry\<close>)\<close>

definition shouldRetry :: "js_error \<Rightarrow> bool" where
  "shouldRetry error =
     (if str_includes (message error) ''ECONNREFUSED'' \<or>
         str_includes (message error) ''ETIMEDOUT'' \<or>
         str_includes (message error) ''ENOTFOUND'' then True
      else if error_class error = TimeoutError \<or> error_class error = ExternalServiceError then True
      else if error_class error = DatabaseError then
        str_includes (message error) ''deadlock'' \<or>
        str_includes (message error) ''timeout'' \<or>
        str_includes (message error) ''connection''
      else False)"

text \<open>
  The options object. A field that is left out takes the default of the destructuring
  pattern. \<^verbatim>\<open>onRetry\<close> is a callback that may itself throw (\<open>Some e\<close>) or return
  (\<open>None\<close>).
\<close>

record retry_options =
  opt_maxAttempts :: "int option"
  opt_initialDelay :: "int option"
  opt_maxDelay :: "int option"
  opt_factor :: "int option"
  opt_onRetry :: "(js_error \<Rightarrow> int \<Rightarrow> js_error option) option"

definition maxAttempts :: "retry_options \<Rightarrow> int" where
  "maxAttempts opts = (case opt_maxAttempts opts of None \<Rightarrow> 3 | Some n \<Rightarrow> n)"

definition initialDelay :: "retry_options \<Rightarrow> int" where
  "initialDelay opts = (case opt_initialDelay opts of None \<Rightarrow> 100 | Some n \<Rightarrow> n)"

definition maxDelay :: "retry_options \<Rightarrow> int" where
  "maxDelay opts = (case opt_maxDelay opts of None \<Rightarrow> 5000 | Some n \<Rightarrow> n)"

definition factor :: "retry_options \<Rightarrow> int" where
  "factor opts = (case opt_factor opts of None \<Rightarrow> 2 | Some n \<Rightarrow> n)"

text \<open>
  What a run of \<^verbatim>\<open>retry\<close> did: how often \<^verbatim>\<open>operation()\<close> was invoked, the arguments of
  each \<^verbatim>\<open>onRetry\<close> call, the delays slept, and the last error caught (\<^verbatim>\<open>lastError\<close>,
  \<^verbatim>\<open>undefined\<close> at the start).
\<close>

record retry_trace =
  invocations :: nat
  onRetry_calls :: "(js_error \<times> int) list"
  delays :: "int list"
  lastError :: "js_error option"

definition no_trace :: retry_trace where
  "no_trace = \<lparr>invocations = 0, onRetry_calls = [], delays = [], lastError = None\<rparr>"

text \<open>What the returned promise rejects with: an error object, or \<^verbatim>\<open>undefined\<close> when
  \<^verbatim>\<open>throw lastError!\<close> is reached before any attempt.\<close>

datatype thrown = Thrown js_error | Thrown_undefined

text \<open>
  The \<^verbatim>\<open>for\<close> loop from \<open>attempt\<close> on. \<open>operation n\<close> is the outcome of the \<open>n\<close>-th
  invocation of the operation, counted from 1.
\<close>

function retry_from ::
  "(nat \<Rightarrow> js_error + 'a) \<Rightarrow> retry_options \<Rightarrow> int \<Rightarrow> retry_trace
     \<Rightarrow> (thrown + 'a) \<times> retry_trace" where
  "retry_from operation opts attempt tr =
     (if attempt \<le> maxAttempts opts then
        (let tr1 = tr\<lparr>invocations := Suc (invocations tr)\<rparr>
         in case operation (invocations tr1) of
              Inr v \<Rightarrow> (Inr v, tr1)
            | Inl error \<Rightarrow>
                (let tr2 = tr1\<lparr>lastError := Some error\<rparr>
                 in if attempt = maxAttempts opts then (Inl (Thrown error), tr2)
                    else if \<not> shouldRetry error then (Inl (Thrown error), tr2)
                    else
                      (let delay = min (initialDelay opts * factor opts ^ nat (attempt - 1))
                                       (maxDelay opts)
                       in case opt_onRetry opts of
                            None \<Rightarrow>
                              retry_from operation opts (attempt + 1)
                                (tr2\<lparr>delays := delays tr2 @ [delay]\<rparr>)
                          | Some callback \<Rightarrow>
                              (let tr3 = tr2\<lparr>onRetry_calls :=
                                               onRetry_calls tr2 @ [(error, attempt)]\<rparr>
                               in case callback error attempt of
                                    Some e \<Rightarrow> (Inl (Thrown e), tr3)
                                  | None \<Rightarrow>
                                      retry_from operation opts (attempt + 1)
                                        (tr3\<lparr>delays := delays tr3 @ [delay]\<rparr>)))))
      else (case lastError tr of
              None \<Rightarrow> (Inl Thrown_undefined, tr)
            | Some error \<Rightarrow> (Inl (Thrown error), tr)))"
  by pat_completeness auto
termination
  by (relation "measure (\<lambda>(operation, opts, attempt, tr). nat (maxAttempts opts + 1 - attempt))")
     auto

declare retry_from.simps [simp del]

definition retry ::
  "(nat \<Rightarrow> js_error + 'a) \<Rightarrow> retry_options \<Rightarrow> (thrown + 'a) \<times> retry_trace" where
  "retry operation opts = retry_from operation opts 1 no_trace"

subsection \<open>Circuit breaker (\<^verbatim>\<open>ErrorHandler.createCircuitBreaker\<close>)\<close>

datatype breaker_state = Closed | Open | HalfOpen

text \<open>
  The closure: the three options after defaulting, and the three variables. The
  threshold and the reset timeout are only compared with, so they are any real number;
  \<^verbatim>\<open>timeout\<close> is rendered into the message of the timeout error and is kept a whole number
  of milliseconds.
\<close>

record circuit_breaker =
  threshold :: real
  timeout :: int
  resetTimeout :: real
  failures :: int
  lastFailureTime :: int
  state :: breaker_state

definition createCircuitBreaker ::
  "real option \<Rightarrow> int option \<Rightarrow> real option \<Rightarrow> circuit_breaker" where
  "createCircuitBreaker opt_threshold opt_timeout opt_resetTimeout =
     \<lparr>threshold = (case opt_threshold of None \<Rightarrow> 5 | Some n \<Rightarrow> n),
      timeout = (case opt_timeout of None \<Rightarrow> 60000 | Some n \<Rightarrow> n),
      resetTimeout = (case opt_resetTimeout of None \<Rightarrow> 30000 | Some n \<Rightarrow> n),
      failures = 0, lastFailureTime = 0, state = Closed\<rparr>"

text \<open>The first statement of the wrapper: an open circuit whose last failure is more
  than \<^verbatim>\<open>resetTimeout\<close> old becomes half-open, with the failure count reset.\<close>

definition check_reset :: "circuit_breaker \<Rightarrow> int \<Rightarrow> circuit_breaker" where
  "check_reset cb now =
     (if state cb = Open \<and> real_of_int (now - lastFailureTime cb) > resetTimeout cb
      then cb\<lparr>state := HalfOpen, failures := 0\<rparr> else cb)"

text \<open>The \<^verbatim>\<open>try\<close> block on success and the \<^verbatim>\<open>catch\<close> block; \<open>now\<close> is \<^verbatim>\<open>Date.now()\<close> in
  the \<^verbatim>\<open>catch\<close>.\<close>

definition on_success :: "circuit_breaker \<Rightarrow> circuit_breaker" where
  "on_success cb = (if state cb = HalfOpen then cb\<lparr>state := Closed\<rparr> else cb)\<lparr>failures := 0\<rparr>"

definition on_failure :: "circuit_breaker \<Rightarrow> int \<Rightarrow> circuit_breaker" where
  "on_failure cb now =
     (let cb1 = cb\<lparr>failures := failures cb + 1, lastFailureTime := now\<rparr>
      in if threshold cb1 \<le> real_of_int (failures cb1) then cb1\<lparr>state := Open\<rparr> else cb1)"

text \<open>
  The wrapper awaits \<^verbatim>\<open>Promise.race\<close> between its entry check and its handlers, and other
  calls of the same wrapper can enter or settle during that await. One call is therefore
  two steps on the shared closure. \<open>breaker_enter\<close> runs from the start of the wrapper
  to the await: it answers whether the call is admitted (the wrapped function is
  executed) or rejected with \<^verbatim>\<open>Circuit breaker is open\<close>. \<open>breaker_settle\<close> runs when the
  race of an admitted call has settled, with the outcome of the race and the time in the
  handler.
\<close>

definition breaker_enter :: "circuit_breaker \<Rightarrow> int \<Rightarrow> bool \<times> circuit_breaker" where
  "breaker_enter cb now =
     (let cb1 = check_reset cb now
      in if state cb1 = Open then (False, cb1) else (True, cb1))"

definition breaker_settle :: "circuit_breaker \<Rightarrow> js_error + 'a \<Rightarrow> int \<Rightarrow> circuit_breaker" where
  "breaker_settle cb outcome now =
     (case outcome of Inr result \<Rightarrow> on_success cb | Inl error \<Rightarrow> on_failure cb now)"

text \<open>
  How the wrapped function behaves in one call: it settles (fulfils or rejects) before
  the breaker's timer fires, after the given number of milliseconds, or the timer fires
  first. \<^verbatim>\<open>Promise.race\<close> takes whichever comes first.
\<close>

datatype 'a fn_behaviour = Settles_first "js_error + 'a" int | Timer_first

definition race :: "circuit_breaker \<Rightarrow> 'a fn_behaviour \<Rightarrow> (js_error + 'a) \<times> int" where
  "race cb behaviour =
     (case behaviour of
        Settles_first r elapsed \<Rightarrow> (r, elapsed)
      | Timer_first \<Rightarrow> (Inl (new_TimeoutError ''Circuit breaker timeout'' (timeout cb)), timeout cb))"

text \<open>
  A call during which no other call of the wrapper enters or settles: the entry at time
  \<open>now\<close>, directly followed by the call's own settlement. The result carries whether the
  wrapped function was executed.
\<close>

record 'a breaker_result =
  settled :: "js_error + 'a"
  executed :: bool
  breaker :: circuit_breaker

definition breaker_call :: "circuit_breaker \<Rightarrow> int \<Rightarrow> 'a fn_behaviour \<Rightarrow> 'a breaker_result" where
  "breaker_call cb now behaviour =
     (case breaker_enter cb now of
        (False, cb1) \<Rightarrow>
          \<lparr>settled = Inl (JsError PlainError ''Circuit breaker is open''),
           executed = False, breaker = cb1\<rparr>
      | (True, cb1) \<Rightarrow>
          (case race cb1 behaviour of
             (outcome, elapsed) \<Rightarrow>
               \<lparr>settled = outcome, executed = True,
                breaker = breaker_settle cb1 outcome (now + elapsed)\<rparr>))"

text \<open>
  Any interleaving of calls is a sequence of events on the closure: a call enters, or
  the race of a call in flight settles. \<open>in_flight\<close> counts the admitted calls that have
  not settled; a settlement with none in flight cannot happen and changes nothing.
  \<open>failures_since_success\<close> records how many failed settlements have happened since the
  last successful one.
\<close>

datatype 'a breaker_event = Enter int | Settle "js_error + 'a" int

record breaker_run =
  closure :: circuit_breaker
  in_flight :: nat
  failures_since_success :: nat

definition new_run :: "circuit_breaker \<Rightarrow> breaker_run" where
  "new_run cb = \<lparr>closure = cb, in_flight = 0, failures_since_success = 0\<rparr>"

fun breaker_step :: "breaker_run \<Rightarrow> 'a breaker_event \<Rightarrow> breaker_run" where
  "breaker_step r (Enter now) =
     (case breaker_enter (closure r) now of
        (admitted, cb1) \<Rightarrow>
          r\<lparr>closure := cb1, in_flight := (if admitted then Suc (in_flight r) else in_flight r)\<rparr>)"
| "breaker_step r (Settle outcome now) =
     (if in_flight r = 0 then r
      else r\<lparr>closure := breaker_settle (closure r) outcome now,
             in_flight := in_flight r - 1,
             failures_since_success :=
               (case outcome of Inl error \<Rightarrow> Suc (failures_since_success r) | Inr result \<Rightarrow> 0)\<rparr>)"

fun breaker_events :: "breaker_run \<Rightarrow> 'a breaker_event list \<Rightarrow> breaker_run" where
  "breaker_events r [] = r"
| "breaker_events r (e # es) = breaker_events (breaker_step r e) es"

subsection \<open>Metric keys (\<^verbatim>\<open>MetricsCollector\<close> in \<^verbatim>\<open>monitoring/metrics.ts\<close>)\<close>

text \<open>
  A tag record is given by \<^verbatim>\<open>Object.entries(tags)\<close>: its properties in the order the
  object lists them, each value as the template literal \<^verbatim>\<open>${v}\<close> renders it. The argument
  is \<open>None\<close> when \<^verbatim>\<open>tags\<close> is left out.

  \<^verbatim>\<open>String.prototype.localeCompare\<close> is a built-in whose result depends on the engine's
  collation; it is a parameter of the model. \<^verbatim>\<open>Array.prototype.sort\<close> is stable; it is
  written as insertion from the right, which puts an element before the first element
  that it does not compare greater than.
\<close>

type_synonym tag_entries = "(string \<times> string) list"

fun insert_by :: "('a \<Rightarrow> 'a \<Rightarrow> int) \<Rightarrow> 'a \<Rightarrow> 'a list \<Rightarrow> 'a list" where
  "insert_by cmp x [] = [x]"
| "insert_by cmp x (y # ys) = (if cmp x y \<le> 0 then x # y # ys else y # insert_by cmp x ys)"

definition js_sort :: "('a \<Rightarrow> 'a \<Rightarrow> int) \<Rightarrow> 'a list \<Rightarrow> 'a list" where
  "js_sort cmp xs = foldr (insert_by cmp) xs []"

fun join :: "string \<Rightarrow> string list \<Rightarrow> string" where
  "join sep [] = []"
| "join sep [x] = x"
| "join sep (x # y # ys) = x @ sep @ join sep (y # ys)"

text \<open>The comparator \<^verbatim>\<open>([a], [b]) => a.localeCompare(b)\<close> on entries.\<close>

definition by_name ::
  "(string \<Rightarrow> string \<Rightarrow> int) \<Rightarrow> string \<times> string \<Rightarrow> string \<times> string \<Rightarrow> int" where
  "by_name localeCompare = (\<lambda>(a, _) (b, _). localeCompare a b)"

definition getKey :: "(string \<Rightarrow> string \<Rightarrow> int) \<Rightarrow> string \<Rightarrow> tag_entries option \<Rightarrow> string" where
  "getKey localeCompare name tags =
     (case tags of
        None \<Rightarrow> name
      | Some entries \<Rightarrow>
          (if length entries = 0 then name
           else
             (let tagStr =
                    join '',''
                      (map (\<lambda>(k, v). k @ '':'' @ v) (js_sort (by_name localeCompare) entries))
              in name @ ''{'' @ tagStr @ ''}'')))"

text \<open>Statistics of one operation; \<open>None\<close> in \<open>minTime\<close> is the \<^verbatim>\<open>Infinity\<close> of a new entry.
  Metric values are JavaScript numbers, taken here as reals.\<close>

record operation_stats =
  stat_count :: int
  totalTime :: real
  minTime :: "real option"
  maxTime :: real
  stat_errors :: int

record metrics_collector =
  counters :: "real js_map"
  gauges :: "real js_map"
  histograms :: "real list js_map"
  operationStats :: "operation_stats js_map"

definition increment ::
  "(string \<Rightarrow> string \<Rightarrow> int) \<Rightarrow> metrics_collector \<Rightarrow> string \<Rightarrow> real \<Rightarrow> tag_entries option
     \<Rightarrow> metrics_collector" where
  "increment localeCompare mc name val tags =
     (let key = getKey localeCompare name tags;
          current = (case map_get (counters mc) key of None \<Rightarrow> 0 | Some c \<Rightarrow> c)
      in mc\<lparr>counters := map_set key (current + val) (counters mc)\<rparr>)"

definition gauge ::
  "(string \<Rightarrow> string \<Rightarrow> int) \<Rightarrow> metrics_collector \<Rightarrow> string \<Rightarrow> real \<Rightarrow> tag_entries option
     \<Rightarrow> metrics_collector" where
  "gauge localeCompare mc name val tags =
     (let key = getKey localeCompare name tags
      in mc\<lparr>gauges := map_set key val (gauges mc)\<rparr>)"

definition histogram ::
  "(string \<Rightarrow> string \<Rightarrow> int) \<Rightarrow> metrics_collector \<Rightarrow> string \<Rightarrow> real \<Rightarrow> tag_entries option
     \<Rightarrow> metrics_collector" where
  "histogram localeCompare mc name val tags =
     (let key = getKey localeCompare name tags;
          pushed = (case map_get (histograms mc) key of None \<Rightarrow> [] | Some vs \<Rightarrow> vs) @ [val];
          kept = (if length pushed > 1000 then tl pushed else pushed)
      in mc\<lparr>histograms := map_set key kept (histograms mc)\<rparr>)"

definition recordOperation ::
  "(string \<Rightarrow> string \<Rightarrow> int) \<Rightarrow> metrics_collector \<Rightarrow> string \<Rightarrow> real \<Rightarrow> bool
     \<Rightarrow> tag_entries option \<Rightarrow> metrics_collector" where
  "recordOperation localeCompare mc name duration error tags =
     (let key = getKey localeCompare name tags;
          stats = (case map_get (operationStats mc) key of
                     None \<Rightarrow> \<lparr>stat_count = 0, totalTime = 0, minTime = None, maxTime = 0,
                               stat_errors = 0\<rparr>
                   | Some st \<Rightarrow> st);
          stats1 = stats\<lparr>stat_count := stat_count stats + 1,
                          totalTime := totalTime stats + duration,
                          minTime := Some (case minTime stats of
                                             None \<Rightarrow> duration
                                           | Some m \<Rightarrow> min m duration),
                          maxTime := max (maxTime stats) duration\<rparr>;
          stats2 = (if error then stats1\<lparr>stat_errors := stat_errors stats1 + 1\<rparr> else stats1)
      in mc\<lparr>operationStats := map_set key stats2 (operationStats mc)\<rparr>)"

text \<open>\<^verbatim>\<open>getOperationStats\<close>: \<^verbatim>\<open>null\<close> for an unknown key, else the stored fields with
  \<^verbatim>\<open>avgTime\<close> and \<^verbatim>\<open>errorRate\<close>.\<close>

record operation_report =
  report_stats :: operation_stats
  avgTime :: real
  errorRate :: real

definition getOperationStats ::
  "(string \<Rightarrow> string \<Rightarrow> int) \<Rightarrow> metrics_collector \<Rightarrow> string \<Rightarrow> tag_entries option
     \<Rightarrow> operation_report option" where
  "getOperationStats localeCompare mc name tags =
     (let key = getKey localeCompare name tags
      in case map_get (operationStats mc) key of
           None \<Rightarrow> None
         | Some stats \<Rightarrow>
             Some \<lparr>report_stats = stats,
                   avgTime = totalTime stats / real_of_int (stat_count stats),
                   errorRate = real_of_int (stat_errors stats) / real_of_int (stat_count stats)\<rparr>)"

text \<open>Two tag records are equal as key-value sets: each lists every property name once,
  and they hold the same entries.\<close>

definition same_tags :: "tag_entries \<Rightarrow> tag_entries \<Rightarrow> bool" where
  "same_tags t1 t2 \<longleftrightarrow> distinct (map fst t1) \<and> distinct (map fst t2) \<and> set t1 = set t2"

text \<open>The comparison orders the given names: any two are comparable, the comparison is
  transitive, and two different names never compare as equal.\<close>

definition orders_names :: "(string \<Rightarrow> string \<Rightarrow> int) \<Rightarrow> string list \<Rightarrow> bool" where
  "orders_names cmp names \<longleftrightarrow>
     (\<forall>a \<in> set names. \<forall>b \<in> set names. cmp a b \<le> 0 \<or> cmp b a \<le> 0) \<and>
     (\<forall>a \<in> set names. \<forall>b \<in> set names. \<forall>c \<in> set names.
        cmp a b \<le> 0 \<longrightarrow> cmp b c \<le> 0 \<longrightarrow> cmp a c \<le> 0) \<and>
     (\<forall>a \<in> set names. \<forall>b \<in> set names. cmp a b \<le> 0 \<longrightarrow> cmp b a \<le> 0 \<longrightarrow> a = b)"

text \<open>
  A stand-in for \<^verbatim>\<open>localeCompare\<close> under the default (root) collation, for names made of
  ASCII letters, digits and control characters. The control characters U+0000 to U+0008,
  U+000E to U+001F and U+007F carry no weight at all. The remaining characters are
  compared first without regard to case, digits before letters, a proper prefix before
  the longer name; names that are then equal are compared by case, a lower-case letter
  before the same letter in upper case. So \<^verbatim>\<open>a\<close> comes before \<^verbatim>\<open>B\<close>, \<^verbatim>\<open>a\<close> before \<^verbatim>\<open>A\<close>, and
  \<^verbatim>\<open>a\<close> compares as equal to \<^verbatim>\<open>a\<close> followed by U+0001.
\<close>

definition ignorable :: "char \<Rightarrow> bool" where
  "ignorable c \<longleftrightarrow>
     (of_char c :: nat) < 9 \<or> (14 \<le> (of_char c :: nat) \<and> (of_char c :: nat) < 32) \<or>
     (of_char c :: nat) = 127"

definition upper_case :: "char \<Rightarrow> bool" where
  "upper_case c \<longleftrightarrow> 65 \<le> (of_char c :: nat) \<and> (of_char c :: nat) \<le> 90"

definition primary_weight :: "char \<Rightarrow> nat" where
  "primary_weight c = (if upper_case c then of_char c + 32 else of_char c)"

definition case_weight :: "char \<Rightarrow> nat" where
  "case_weight c = (if upper_case c then 1 else 0)"

fun compare_weights :: "nat list \<Rightarrow> nat list \<Rightarrow> int" where
  "compare_weights [] [] = 0"
| "compare_weights [] (b # bs) = - 1"
| "compare_weights (a # as) [] = 1"
| "compare_weights (a # as) (b # bs) =
     (if a = b then compare_weights as bs else if a < b then - 1 else 1)"

definition collation_compare :: "string \<Rightarrow> string \<Rightarrow> int" where
  "collation_compare a b =
     (let a' = filter (\<lambda>c. \<not> ignorable c) a;
          b' = filter (\<lambda>c. \<not> ignorable c) b;
          primary = compare_weights (map primary_weight a') (map primary_weight b')
      in if primary \<noteq> 0 then primary
         else compare_weights (map case_weight a') (map case_weight b'))"

subsection \<open>Concrete scenarios\<close>

text \<open>Inputs at which the theorems below are instantiated.\<close>

definition fetch_timeout :: js_error where
  "fetch_timeout = new_TimeoutError ''fetch'' 5000"

definition invalid_input :: js_error where
  "invalid_input = JsError ValidationError ''bad input''"

definition flaky_operation :: "nat \<Rightarrow> js_error + int" where
  "flaky_operation n = (if n \<le> 2 then Inl fetch_timeout else Inr 42)"

definition rejecting_operation :: "nat \<Rightarrow> js_error + int" where
  "rejecting_operation n = Inl invalid_input"

definition quiet_callback :: "js_error \<Rightarrow> int \<Rightarrow> js_error option" where
  "quiet_callback error attempt = None"

definition three_attempts :: retry_options where
  "three_attempts =
     \<lparr>opt_maxAttempts = Some 3, opt_initialDelay = None, opt_maxDelay = None,
      opt_factor = None, opt_onRetry = Some quiet_callback\<rparr>"

definition tripped_breaker :: "int \<Rightarrow> circuit_breaker" where
  "tripped_breaker n =
     \<lparr>threshold = real_of_int n, timeout = 60000, resetTimeout = 30000,
      failures = n, lastFailureTime = 1000, state = Open\<rparr>"

definition failing_fn :: "int fn_behaviour" where
  "failing_fn = Settles_first (Inl fetch_timeout) 10"

definition succeeding_fn :: "int fn_behaviour" where
  "succeeding_fn = Settles_first (Inr 7) 10"

text \<open>Two calls in flight at once: the second enters while the first is awaited and
  fails, then the first succeeds.\<close>

definition overlapping_trials :: "int breaker_event list" where
  "overlapping_trials =
     [Enter 31001, Enter 31002, Settle (Inl fetch_timeout) 31005, Settle (Inr 7) 31009]"

text \<open>Calls one after the other on a breaker with threshold 2: a failure, a success, a
  failure, and a fourth call that has entered.\<close>

text \<open>On a new breaker: a first call enters, a second call enters and fails; the first
  call then succeeds.\<close>

definition overlapping_calls :: "int breaker_event list" where
  "overlapping_calls = [Enter 0, Enter 1, Settle (Inl fetch_timeout) 5]"

definition late_success :: "int breaker_event" where
  "late_success = Settle (Inr 7) 9"

definition late_failure :: "int breaker_event" where
  "late_failure = Settle (Inl fetch_timeout) 70"

definition separated_failures :: "int breaker_event list" where
  "separated_failures =
     [Enter 0, Settle (Inl fetch_timeout) 10, Enter 20, Settle (Inr 7) 30,
      Enter 40, Settle (Inl fetch_timeout) 50, Enter 60]"

definition idle_process :: child_process where
  "idle_process = \<lparr>killed = False, kill_throws = None\<rparr>"

definition ten_processes :: resource_manager where
  "ten_processes =
     ledger_run new_ResourceManager
       [RegisterProcess ''p0'' idle_process, RegisterProcess ''p1'' idle_process,
        RegisterProcess ''p2'' idle_process, RegisterProcess ''p3'' idle_process,
        RegisterProcess ''p4'' idle_process, RegisterProcess ''p5'' idle_process,
        RegisterProcess ''p6'' idle_process, RegisterProcess ''p7'' idle_process,
        RegisterProcess ''p8'' idle_process, RegisterProcess ''p9'' idle_process]"

definition plain_connection :: "nat \<Rightarrow> handle" where
  "plain_connection n =
     \<lparr>tag = n, truthy = True, close_m = Returns, end_m = Absent, disconnect_m = Absent\<rparr>"

definition broken_handle :: "nat \<Rightarrow> handle" where
  "broken_handle n =
     \<lparr>tag = n, truthy = True, close_m = Throws (JsError PlainError ''EBADF''),
      end_m = Absent, disconnect_m = Absent\<rparr>"

definition stubborn_ledger :: resource_manager where
  "stubborn_ledger =
     ledger_run new_ResourceManager
       [RegisterProcess ''build'' \<lparr>killed = False, kill_throws = Some (JsError PlainError ''EPERM'')\<rparr>,
        RegisterTimer ''tick'' 1,
        RegisterConnection ''db'' (broken_handle 1),
        RegisterFileHandle ''log'' (broken_handle 2)]"

definition fresh_connection :: "nat \<Rightarrow> js_error + handle" where
  "fresh_connection i = Inr (plain_connection i)"

definition refused_connection :: "nat \<Rightarrow> js_error + handle" where
  "refused_connection i = Inl (JsError PlainError ''ECONNREFUSED'')"

text \<open>The pool that \<^verbatim>\<open>createSQLitePool\<close> in \<^verbatim>\<open>tools/database.ts\<close> constructs
  (\<^verbatim>\<open>minSize: 1, maxSize: 1\<close>), with the ledger beside it, before its warm-up has
  finished.\<close>

definition sqlite_pool :: "connection_pool \<times> resource_manager" where
  "sqlite_pool = (construct_pool (Some 1) (Some 1), new_ResourceManager)"

text \<open>A first \<^verbatim>\<open>acquire\<close> on that pool has started a creation; then the warm-up finishes;
  then the creation settles and the \<^verbatim>\<open>acquire\<close> goes on.\<close>

definition sqlite_creating :: "connection_pool \<times> resource_manager" where
  "sqlite_creating = snd (acquire_begin sqlite_pool ''conn_1'')"

definition sqlite_warmed :: "connection_pool \<times> resource_manager" where
  "sqlite_warmed = (initialize fresh_connection (fst sqlite_creating), snd sqlite_creating)"

definition sqlite_acquired :: "connection_pool \<times> resource_manager" where
  "sqlite_acquired = snd (acquire_resume sqlite_warmed ''conn_1'' (Inr (plain_connection 7)))"

text \<open>The same sizes, the warm-up finished with its creation refused. Two \<^verbatim>\<open>acquire\<close>
  calls start before either creation settles; then each creation settles.\<close>

definition cold_pool :: "connection_pool \<times> resource_manager" where
  "cold_pool = (new_ConnectionPool (Some 1) (Some 1) refused_connection, new_ResourceManager)"

definition both_creating :: "connection_pool \<times> resource_manager" where
  "both_creating = snd (acquire_begin (snd (acquire_begin cold_pool ''conn_1'')) ''conn_2'')"

definition first_inserted :: "connection_pool \<times> resource_manager" where
  "first_inserted = snd (acquire_resume both_creating ''conn_1'' (Inr (plain_connection 7)))"

definition both_inserted :: "connection_pool \<times> resource_manager" where
  "both_inserted = snd (acquire_resume first_inserted ''conn_2'' (Inr (plain_connection 8)))"

definition tags_reason_first :: tag_entries where
  "tags_reason_first = [(''reason'', ''memory''), (''env'', ''prod'')]"

definition tags_env_first :: tag_entries where
  "tags_env_first = [(''env'', ''prod''), (''reason'', ''memory'')]"

text \<open>Two tag names that differ only in the control character U+0001.\<close>

definition tags_a_first :: tag_entries where
  "tags_a_first = [(''a'', ''1''), ([CHR ''a'', CHR 0x01], ''2'')]"

definition tags_a_last :: tag_entries where
  "tags_a_last = [([CHR ''a'', CHR 0x01], ''2''), (''a'', ''1'')]"

definition no_metrics :: metrics_collector where
  "no_metrics = \<lparr>counters = [], gauges = [], histograms = [], operationStats = []\<rparr>"

section \<open>Verified properties\<close>

subsection \<open>Rate limiter\<close>

text \<open>
  \<^bold>\<open>C4.\<close> A limiter with \<^verbatim>\<open>windowMs = 1000\<close> and \<^verbatim>\<open>maxRequests = 3\<close> that has no entry for
  the identifier answers four calls at times \<open>t1 \<le> t2 \<le> t3 \<le> t4\<close> lying within 1000 ms
  (\<open>t4 - t1 < 1000\<close>, the comparison of the source) with true, true, true, false, and a
  later call at \<open>t5\<close>, once the window that began at \<open>t1\<close> has fully elapsed
  (\<open>t5 \<ge> t1 + 1000\<close>), with true again.
\<close>

theorem isAllowed_window_scenario:
  assumes "windowMs rl = 1000" and "maxRequests rl = 3" and "requests rl i = None"
    and "t1 \<le> t2" and "t2 \<le> t3" and "t3 \<le> t4" and "t4 - t1 < 1000" and "t1 + 1000 \<le> t5"
  shows "fst (isAllowed_calls rl i [t1, t2, t3, t4, t5]) = [True, True, True, False, True]"
  using assms by (simp add: isAllowed_def recent_def Let_def)

theorem isAllowed_window_scenario_witness:
  "windowMs (new_RateLimiter 1000 3) = 1000 \<and> maxRequests (new_RateLimiter 1000 3) = 3 \<and>
   requests (new_RateLimiter 1000 3) ''deploy'' = None \<and>
   (0::int) \<le> 10 \<and> (10::int) \<le> 20 \<and> (20::int) \<le> 999 \<and> (999::int) - 0 < 1000 \<and>
   (0::int) + 1000 \<le> 1000 \<and>
   fst (isAllowed_calls (new_RateLimiter 1000 3) ''deploy'' [0, 10, 20, 999, 1000])
     = [True, True, True, False, True]"
  using isAllowed_window_scenario [of "new_RateLimiter 1000 3" "''deploy''" 0 10 20 999 1000]
  by (simp add: new_RateLimiter_def)

text \<open>
  \<^bold>\<open>C5.\<close> \<^verbatim>\<open>isAllowed(identifier)\<close> rejects exactly when the identifier's stored timestamps
  inside the window number at least \<^verbatim>\<open>maxRequests\<close>. A rejecting call returns false and
  leaves the whole limiter as it was: nothing is added, removed or pruned for any
  identifier. An accepting call returns true and changes only the entry of its
  identifier, which becomes the in-window timestamps followed by the current time.
\<close>

theorem isAllowed_reject_is_frame:
  "(\<not> fst (isAllowed rl now i) \<longleftrightarrow>
      maxRequests rl \<le>
        int (length (recent rl now (case requests rl i of None \<Rightarrow> [] | Some ts \<Rightarrow> ts)))) \<and>
   (\<not> fst (isAllowed rl now i) \<longrightarrow> snd (isAllowed rl now i) = rl) \<and>
   (fst (isAllowed rl now i) \<longrightarrow>
      requests (snd (isAllowed rl now i)) i =
        Some (recent rl now (case requests rl i of None \<Rightarrow> [] | Some ts \<Rightarrow> ts) @ [now]) \<and>
      (\<forall>j. j \<noteq> i \<longrightarrow> requests (snd (isAllowed rl now i)) j = requests rl j) \<and>
      windowMs (snd (isAllowed rl now i)) = windowMs rl \<and>
      maxRequests (snd (isAllowed rl now i)) = maxRequests rl)"
  by (simp add: isAllowed_def Let_def)

theorem isAllowed_reject_is_frame_witness:
  "\<not> fst (isAllowed \<lparr>requests = [''deploy'' \<mapsto> [0, 10, 20]], windowMs = 1000, maxRequests = 3\<rparr>
            500 ''deploy'') \<and>
   snd (isAllowed \<lparr>requests = [''deploy'' \<mapsto> [0, 10, 20]], windowMs = 1000, maxRequests = 3\<rparr>
            500 ''deploy'')
     = \<lparr>requests = [''deploy'' \<mapsto> [0, 10, 20]], windowMs = 1000, maxRequests = 3\<rparr> \<and>
   fst (isAllowed \<lparr>requests = [''deploy'' \<mapsto> [0, 10, 20]], windowMs = 1000, maxRequests = 3\<rparr>
            1015 ''deploy'') \<and>
   requests (snd (isAllowed
       \<lparr>requests = [''deploy'' \<mapsto> [0, 10, 20]], windowMs = 1000, maxRequests = 3\<rparr>
       1015 ''deploy'')) ''deploy'' = Some [20, 1015]"
  using
    isAllowed_reject_is_frame
      [of "\<lparr>requests = [''deploy'' \<mapsto> [0, 10, 20]], windowMs = 1000, maxRequests = 3\<rparr>"
          500 "''deploy''"]
    isAllowed_reject_is_frame
      [of "\<lparr>requests = [''deploy'' \<mapsto> [0, 10, 20]], windowMs = 1000, maxRequests = 3\<rparr>"
          1015 "''deploy''"]
  by (simp add: recent_def)

subsection \<open>Retry\<close>

text \<open>
  \<^bold>\<open>C6.\<close> With \<^verbatim>\<open>maxAttempts = 3\<close>, an operation whose first two invocations throw
  retryable errors and whose third invocation returns \<open>v\<close>, and an \<^verbatim>\<open>onRetry\<close> callback
  that returns normally: the promise resolves to \<open>v\<close>, the operation was invoked three
  times, and \<^verbatim>\<open>onRetry\<close> was invoked exactly twice, once after each failed attempt, with
  that attempt's error and number.
\<close>

theorem retry_succeeds_on_third_attempt:
  assumes "maxAttempts opts = 3"
    and "operation 1 = Inl e1" and "shouldRetry e1"
    and "operation 2 = Inl e2" and "shouldRetry e2"
    and "operation 3 = Inr v"
    and "opt_onRetry opts = Some callback"
    and "callback e1 1 = None" and "callback e2 2 = None"
  shows "fst (retry operation opts) = Inr v \<and>
         onRetry_calls (snd (retry operation opts)) = [(e1, 1), (e2, 2)] \<and>
         length (onRetry_calls (snd (retry operation opts))) = 2 \<and>
         invocations (snd (retry operation opts)) = 3"
proof -
  let ?d1 = "min (initialDelay opts * factor opts ^ nat (1 - 1)) (maxDelay opts)"
  let ?d2 = "min (initialDelay opts * factor opts ^ nat (2 - 1)) (maxDelay opts)"
  let ?tr1 = "\<lparr>invocations = 1, onRetry_calls = [(e1, 1)], delays = [?d1],
               lastError = Some e1\<rparr>"
  let ?tr2 = "\<lparr>invocations = 2, onRetry_calls = [(e1, 1), (e2, 2)], delays = [?d1, ?d2],
               lastError = Some e2\<rparr>"
  have "retry operation opts = retry_from operation opts 2 ?tr1"
    unfolding retry_def using assms
    by (subst retry_from.simps) (simp add: no_trace_def Let_def)
  also have "\<dots> = retry_from operation opts 3 ?tr2"
    using assms by (subst retry_from.simps) (simp add: Let_def numeral_2_eq_2)
  also have "\<dots> = (Inr v, ?tr2\<lparr>invocations := 3\<rparr>)"
    using assms by (subst retry_from.simps) (simp add: Let_def numeral_3_eq_3)
  finally have "retry operation opts = (Inr v, ?tr2\<lparr>invocations := 3\<rparr>)" .
  then show ?thesis by simp
qed

theorem retry_succeeds_on_third_attempt_witness:
  "maxAttempts three_attempts = 3 \<and>
   flaky_operation 1 = Inl fetch_timeout \<and> shouldRetry fetch_timeout \<and>
   flaky_operation 2 = Inl fetch_timeout \<and> flaky_operation 3 = Inr 42 \<and>
   opt_onRetry three_attempts = Some quiet_callback \<and>
   quiet_callback fetch_timeout 1 = None \<and> quiet_callback fetch_timeout 2 = None \<and>
   fst (retry flaky_operation three_attempts) = Inr 42 \<and>
   length (onRetry_calls (snd (retry flaky_operation three_attempts))) = 2 \<and>
   invocations (snd (retry flaky_operation three_attempts)) = 3"
  using retry_succeeds_on_third_attempt
          [of three_attempts flaky_operation fetch_timeout fetch_timeout 42 quiet_callback]
  by (simp add: three_attempts_def flaky_operation_def fetch_timeout_def quiet_callback_def
        maxAttempts_def shouldRetry_def new_TimeoutError_def)

text \<open>
  \<^bold>\<open>C7.\<close> With \<^verbatim>\<open>maxAttempts \<ge> 2\<close>, if the first invocation throws an error that is not a
  timeout, not an external-service error, has no network-pattern message, and is not a
  \<^verbatim>\<open>DatabaseError\<close> whose message contains \<^verbatim>\<open>deadlock\<close>, \<^verbatim>\<open>timeout\<close> or \<^verbatim>\<open>connection\<close>,
  then that same error is rethrown: the operation was invoked exactly once, \<^verbatim>\<open>onRetry\<close>
  was never called and no delay was slept.
\<close>

theorem retry_rethrows_non_retryable:
  assumes "2 \<le> maxAttempts opts"
    and "operation 1 = Inl e"
    and "error_class e \<noteq> TimeoutError" and "error_class e \<noteq> ExternalServiceError"
    and "\<not> str_includes (message e) ''ECONNREFUSED''"
    and "\<not> str_includes (message e) ''ETIMEDOUT''"
    and "\<not> str_includes (message e) ''ENOTFOUND''"
    and "\<not> (error_class e = DatabaseError \<and>
            (str_includes (message e) ''deadlock'' \<or> str_includes (message e) ''timeout'' \<or>
             str_includes (message e) ''connection''))"
  shows "fst (retry operation opts) = Inl (Thrown e) \<and>
         invocations (snd (retry operation opts)) = 1 \<and>
         onRetry_calls (snd (retry operation opts)) = [] \<and>
         delays (snd (retry operation opts)) = []"
proof -
  have "\<not> shouldRetry e"
    using assms by (auto simp add: shouldRetry_def)
  then have "retry operation opts =
               (Inl (Thrown e), no_trace\<lparr>invocations := 1, lastError := Some e\<rparr>)"
    unfolding retry_def using assms
    by (subst retry_from.simps) (simp add: no_trace_def Let_def)
  then show ?thesis by (simp add: no_trace_def)
qed

theorem retry_rethrows_non_retryable_witness:
  "2 \<le> maxAttempts three_attempts \<and> rejecting_operation 1 = Inl invalid_input \<and>
   error_class invalid_input \<noteq> TimeoutError \<and>
   error_class invalid_input \<noteq> ExternalServiceError \<and>
   \<not> str_includes (message invalid_input) ''ECONNREFUSED'' \<and>
   \<not> str_includes (message invalid_input) ''ETIMEDOUT'' \<and>
   \<not> str_includes (message invalid_input) ''ENOTFOUND'' \<and>
   error_class invalid_input \<noteq> DatabaseError \<and>
   fst (retry rejecting_operation three_attempts) = Inl (Thrown invalid_input) \<and>
   invocations (snd (retry rejecting_operation three_attempts)) = 1 \<and>
   onRetry_calls (snd (retry rejecting_operation three_attempts)) = [] \<and>
   delays (snd (retry rejecting_operation three_attempts)) = []"
  using retry_rethrows_non_retryable [of three_attempts rejecting_operation invalid_input]
  by (simp add: three_attempts_def rejecting_operation_def invalid_input_def maxAttempts_def)

subsection \<open>Circuit breaker\<close>

lemma breaker_enter_threshold [simp]: "threshold (snd (breaker_enter cb now)) = threshold cb"
  by (simp add: breaker_enter_def check_reset_def Let_def)

lemma breaker_settle_threshold [simp]: "threshold (breaker_settle cb outcome now) = threshold cb"
  by (simp add: breaker_settle_def on_success_def on_failure_def Let_def split: sum.splits)

lemma breaker_step_threshold [simp]: "threshold (closure (breaker_step r ev)) = threshold (closure r)"
  by (cases ev) (simp_all split: prod.splits, metis breaker_enter_threshold snd_conv)

lemma breaker_events_threshold: "threshold (closure (breaker_events r es)) = threshold (closure r)"
  by (induction es arbitrary: r) simp_all

text \<open>The failure counter never exceeds the number of failed settlements since the last
  successful one.\<close>

lemma breaker_step_counter:
  assumes "failures (closure r) \<le> int (failures_since_success r)"
  shows "failures (closure (breaker_step r ev)) \<le> int (failures_since_success (breaker_step r ev))"
proof (cases ev)
  case (Enter now)
  with assms show ?thesis
    by (auto simp add: breaker_enter_def check_reset_def Let_def)
next
  case (Settle outcome now)
  with assms show ?thesis
    by (auto simp add: breaker_settle_def on_success_def on_failure_def Let_def split: sum.splits)
qed

lemma breaker_events_counter:
  "failures (closure r) \<le> int (failures_since_success r) \<Longrightarrow>
   failures (closure (breaker_events r es)) \<le> int (failures_since_success (breaker_events r es))"
  by (induction es arbitrary: r) (simp_all add: breaker_step_counter)

text \<open>A step that opens the breaker is the failed settlement of a call in flight, and
  the counter has then reached the threshold.\<close>

lemma breaker_step_opens:
  assumes "state (closure r) \<noteq> Open" and "state (closure (breaker_step r ev)) = Open"
  shows "(\<exists>error t. ev = Settle (Inl error) t) \<and>
         threshold (closure r) \<le> real_of_int (failures (closure (breaker_step r ev)))"
proof (cases ev)
  case (Enter now)
  with assms show ?thesis
    by (auto simp add: breaker_enter_def check_reset_def Let_def split: if_splits)
next
  case (Settle outcome now)
  with assms show ?thesis
    by (cases outcome)
       (auto simp add: breaker_settle_def on_success_def on_failure_def Let_def split: if_splits)
qed

lemma sequential_success_closes:
  assumes "executed (breaker_call cb now fn)" and "settled (breaker_call cb now fn) = Inr v"
  shows "failures (breaker (breaker_call cb now fn)) = 0 \<and>
         state (breaker (breaker_call cb now fn)) = Closed"
proof (cases "state (check_reset cb now)")
  case Open
  with assms show ?thesis by (simp add: breaker_call_def breaker_enter_def Let_def)
next
  case Closed
  with assms show ?thesis
    by (auto simp add: breaker_call_def breaker_enter_def breaker_settle_def on_success_def
          Let_def split: prod.splits)
next
  case HalfOpen
  with assms show ?thesis
    by (auto simp add: breaker_call_def breaker_enter_def breaker_settle_def on_success_def
          Let_def split: prod.splits)
qed

text \<open>
  \<^bold>\<open>C1\<close>, as stated, fails in three ways. With the threshold 5 that \<^verbatim>\<open>BaseTool\<close> passes, an
  open breaker whose last failure is 30001 ms old lets the trial call through; the trial
  fails; the breaker is then half-open, not open, and the call right after it is executed
  rather than rejected. Secondly the half-open breaker admits a second call while the
  trial is still awaited, so there is not one trial. Thirdly, with threshold 1, when that
  second call fails and the first then succeeds, the breaker is left open although the
  trial succeeded.
\<close>

theorem half_open_failure_counterexample:
  "state (tripped_breaker 5) = Open \<and>
   executed (breaker_call (tripped_breaker 5) 31001 failing_fn) \<and>
   settled (breaker_call (tripped_breaker 5) 31001 failing_fn) = Inl fetch_timeout \<and>
   state (breaker (breaker_call (tripped_breaker 5) 31001 failing_fn)) \<noteq> Open \<and>
   executed (breaker_call (breaker (breaker_call (tripped_breaker 5) 31001 failing_fn))
               31012 failing_fn) \<and>
   state (closure (breaker_events (new_run (tripped_breaker 1)) [Enter 31001 :: int breaker_event]))
     = HalfOpen \<and>
   in_flight (breaker_events (new_run (tripped_breaker 1))
                [Enter 31001, Enter 31002 :: int breaker_event]) = 2 \<and>
   state (closure (breaker_events (new_run (tripped_breaker 1)) overlapping_trials)) = Open \<and>
   in_flight (breaker_events (new_run (tripped_breaker 1)) overlapping_trials) = 0"
  by (simp add: tripped_breaker_def failing_fn_def breaker_call_def breaker_enter_def
        breaker_settle_def check_reset_def race_def on_failure_def on_success_def Let_def
        new_run_def overlapping_trials_def)

text \<open>
  \<^bold>\<open>C1\<close>, amended. A call that enters an open breaker more than \<^verbatim>\<open>resetTimeout\<close> after the
  last failure makes it half-open with the failure count reset to 0, and is executed.
  While the breaker is half-open every entering call is executed. A call that succeeds
  while the breaker is half-open makes it closed with count 0. A call that fails while
  the breaker is half-open raises the count by one and makes the breaker open only if the
  count has then reached \<^verbatim>\<open>threshold\<close>; otherwise the breaker stays half-open. A call that
  enters an open breaker no later than \<^verbatim>\<open>resetTimeout\<close> after the last failure is rejected
  with \<^verbatim>\<open>Circuit breaker is open\<close> without executing the function. In particular, for a
  trial during which no other call enters or settles: if it succeeds the breaker is
  closed; if it fails the count is 1 and the breaker is open exactly when
  \<^verbatim>\<open>threshold \<le> 1\<close>, and half-open otherwise.
\<close>

theorem half_open_trial:
  "(state cb = Open \<and> real_of_int (now - lastFailureTime cb) > resetTimeout cb \<longrightarrow>
      breaker_enter cb now = (True, cb\<lparr>state := HalfOpen, failures := 0\<rparr>) \<and>
      executed (breaker_call cb now (fn :: 'a fn_behaviour)) \<and>
      (\<forall>v. settled (breaker_call cb now fn) = Inr v \<longrightarrow>
         state (breaker (breaker_call cb now fn)) = Closed \<and>
         failures (breaker (breaker_call cb now fn)) = 0) \<and>
      (\<forall>e. settled (breaker_call cb now fn) = Inl e \<longrightarrow>
         failures (breaker (breaker_call cb now fn)) = 1 \<and>
         state (breaker (breaker_call cb now fn))
           = (if threshold cb \<le> 1 then Open else HalfOpen))) \<and>
   (state cb = HalfOpen \<longrightarrow>
      breaker_enter cb now = (True, cb) \<and>
      state (breaker_settle cb (Inr result :: js_error + 'a) t) = Closed \<and>
      failures (breaker_settle cb (Inr result :: js_error + 'a) t) = 0 \<and>
      failures (breaker_settle cb (Inl error :: js_error + 'a) t) = failures cb + 1 \<and>
      lastFailureTime (breaker_settle cb (Inl error :: js_error + 'a) t) = t \<and>
      state (breaker_settle cb (Inl error :: js_error + 'a) t)
        = (if threshold cb \<le> real_of_int (failures cb + 1) then Open else HalfOpen)) \<and>
   (state cb = Open \<and> real_of_int (now - lastFailureTime cb) \<le> resetTimeout cb \<longrightarrow>
      breaker_enter cb now = (False, cb) \<and>
      \<not> executed (breaker_call cb now fn) \<and>
      settled (breaker_call cb now fn) = Inl (JsError PlainError ''Circuit breaker is open'') \<and>
      breaker (breaker_call cb now fn) = cb)"
proof (intro conjI impI)
  assume "state cb = Open \<and> real_of_int (now - lastFailureTime cb) > resetTimeout cb"
  then show "breaker_enter cb now = (True, cb\<lparr>state := HalfOpen, failures := 0\<rparr>)"
    and "executed (breaker_call cb now fn)"
    and "\<forall>v. settled (breaker_call cb now fn) = Inr v \<longrightarrow>
           state (breaker (breaker_call cb now fn)) = Closed \<and>
           failures (breaker (breaker_call cb now fn)) = 0"
    and "\<forall>e. settled (breaker_call cb now fn) = Inl e \<longrightarrow>
           failures (breaker (breaker_call cb now fn)) = 1 \<and>
           state (breaker (breaker_call cb now fn))
             = (if threshold cb \<le> 1 then Open else HalfOpen)"
    by (auto simp add: breaker_call_def breaker_enter_def breaker_settle_def check_reset_def
          on_failure_def on_success_def Let_def split: prod.splits sum.splits)
next
  assume "state cb = HalfOpen"
  then show "breaker_enter cb now = (True, cb)"
    and "state (breaker_settle cb (Inr result :: js_error + 'a) t) = Closed"
    and "failures (breaker_settle cb (Inr result :: js_error + 'a) t) = 0"
    and "failures (breaker_settle cb (Inl error :: js_error + 'a) t) = failures cb + 1"
    and "lastFailureTime (breaker_settle cb (Inl error :: js_error + 'a) t) = t"
    and "state (breaker_settle cb (Inl error :: js_error + 'a) t)
           = (if threshold cb \<le> real_of_int (failures cb + 1) then Open else HalfOpen)"
    by (simp_all add: breaker_enter_def breaker_settle_def check_reset_def on_failure_def
          on_success_def Let_def)
next
  assume "state cb = Open \<and> real_of_int (now - lastFailureTime cb) \<le> resetTimeout cb"
  then show "breaker_enter cb now = (False, cb)"
    and "\<not> executed (breaker_call cb now fn)"
    and "settled (breaker_call cb now fn) = Inl (JsError PlainError ''Circuit breaker is open'')"
    and "breaker (breaker_call cb now fn) = cb"
    by (simp_all add: breaker_call_def breaker_enter_def check_reset_def Let_def)
qed

theorem half_open_trial_witness:
  "state (tripped_breaker 1) = Open \<and>
   real_of_int (31001 - lastFailureTime (tripped_breaker 1)) > resetTimeout (tripped_breaker 1) \<and>
   settled (breaker_call (tripped_breaker 1) 31001 failing_fn) = Inl fetch_timeout \<and>
   state (breaker (breaker_call (tripped_breaker 1) 31001 failing_fn)) = Open \<and>
   settled (breaker_call (tripped_breaker 5) 31001 failing_fn) = Inl fetch_timeout \<and>
   state (breaker (breaker_call (tripped_breaker 5) 31001 failing_fn)) = HalfOpen \<and>
   settled (breaker_call (tripped_breaker 5) 31001 succeeding_fn) = Inr 7 \<and>
   state (breaker (breaker_call (tripped_breaker 5) 31001 succeeding_fn)) = Closed \<and>
   state (snd (breaker_enter (tripped_breaker 5) 31001)) = HalfOpen \<and>
   breaker_enter (snd (breaker_enter (tripped_breaker 5) 31001)) 31002
     = (True, snd (breaker_enter (tripped_breaker 5) 31001)) \<and>
   state (breaker_settle (snd (breaker_enter (tripped_breaker 5) 31001))
            (Inl fetch_timeout :: js_error + int) 31005) = HalfOpen \<and>
   real_of_int (2000 - lastFailureTime (tripped_breaker 5)) \<le> resetTimeout (tripped_breaker 5) \<and>
   \<not> executed (breaker_call (tripped_breaker 5) 2000 succeeding_fn)"
proof -
  have opened: "state (tripped_breaker 1) = Open" "state (tripped_breaker 5) = Open"
    and late:
      "real_of_int (31001 - lastFailureTime (tripped_breaker 1)) > resetTimeout (tripped_breaker 1)"
      "real_of_int (31001 - lastFailureTime (tripped_breaker 5)) > resetTimeout (tripped_breaker 5)"
    and early:
      "real_of_int (2000 - lastFailureTime (tripped_breaker 5)) \<le> resetTimeout (tripped_breaker 5)"
    and thresholds: "threshold (tripped_breaker 1) = 1" "threshold (tripped_breaker 5) = 5"
      "failures (snd (breaker_enter (tripped_breaker 5) 31001)) = 0"
      "threshold (snd (breaker_enter (tripped_breaker 5) 31001)) = 5"
    and half: "state (snd (breaker_enter (tripped_breaker 5) 31001)) = HalfOpen"
    and outcomes:
      "settled (breaker_call (tripped_breaker 1) 31001 failing_fn) = Inl fetch_timeout"
      "settled (breaker_call (tripped_breaker 5) 31001 failing_fn) = Inl fetch_timeout"
      "settled (breaker_call (tripped_breaker 5) 31001 succeeding_fn) = Inr 7"
    by (simp_all add: tripped_breaker_def failing_fn_def succeeding_fn_def breaker_call_def
          breaker_enter_def check_reset_def race_def Let_def)
  show ?thesis
    using opened late early thresholds half outcomes
      half_open_trial [of "tripped_breaker 1" 31001 failing_fn]
      half_open_trial [of "tripped_breaker 5" 31001 failing_fn]
      half_open_trial [of "tripped_breaker 5" 31001 succeeding_fn]
      half_open_trial [of "snd (breaker_enter (tripped_breaker 5) 31001)" 31002 succeeding_fn
                          "7::int" 31005 fetch_timeout]
      half_open_trial [of "tripped_breaker 5" 2000 succeeding_fn]
    by simp
qed

text \<open>
  \<^bold>\<open>C9\<close>, as stated, fails for calls in flight at the same time. On a new breaker with
  threshold 1 a first call enters, a second call enters and fails, which opens the
  breaker, and then the first call succeeds: the success resets the counter to 0 but
  leaves the state open, not closed.
\<close>

theorem success_leaves_open_counterexample:
  "in_flight (breaker_events (new_run (createCircuitBreaker (Some 1) None None))
                overlapping_calls) = 1 \<and>
   state (closure (breaker_events (new_run (createCircuitBreaker (Some 1) None None))
                     overlapping_calls)) = Open \<and>
   late_success = Settle (Inr 7) 9 \<and>
   state (closure
            (breaker_step
               (breaker_events (new_run (createCircuitBreaker (Some 1) None None))
                  overlapping_calls)
               late_success)) = Open \<and>
   failures (closure
               (breaker_step
                  (breaker_events (new_run (createCircuitBreaker (Some 1) None None))
                     overlapping_calls)
                  late_success)) = 0"
  by (simp add: createCircuitBreaker_def new_run_def breaker_enter_def breaker_settle_def
        check_reset_def on_failure_def on_success_def Let_def overlapping_calls_def
        late_success_def)

text \<open>
  \<^bold>\<open>C9\<close>, amended. Every wrapped call that completes successfully resets the failure
  counter to 0. It leaves the state closed if the breaker is closed or half-open at that
  moment, which is always so when no other call entered or settled while it was in
  flight; if the failure of another call has opened the breaker in the meantime, the
  state stays open. In every interleaving of calls on a new breaker, the breaker changes
  to open only when a call fails and at least \<^verbatim>\<open>threshold\<close> calls have failed since the
  last successful completion: failures separated by a success never add up to trip it.
\<close>

theorem success_resets_failure_count:
  "failures (breaker_settle cb (Inr v) t) = 0 \<and>
   state (breaker_settle cb (Inr v) t) = (if state cb = Open then Open else Closed) \<and>
   (executed (breaker_call cb now fn) \<and> settled (breaker_call cb now fn) = Inr v \<longrightarrow>
      failures (breaker (breaker_call cb now fn)) = 0 \<and>
      state (breaker (breaker_call cb now fn)) = Closed) \<and>
   (state (closure (breaker_events (new_run (createCircuitBreaker o1 o2 o3)) es)) \<noteq> Open \<and>
    state (closure (breaker_step (breaker_events (new_run (createCircuitBreaker o1 o2 o3)) es) ev))
      = Open \<longrightarrow>
      (\<exists>error t'. ev = Settle (Inl error) t') \<and>
      threshold (createCircuitBreaker o1 o2 o3)
        \<le> real (failures_since_success
                   (breaker_step (breaker_events (new_run (createCircuitBreaker o1 o2 o3)) es) ev)))"
proof (intro conjI impI)
  show "failures (breaker_settle cb (Inr v) t) = 0"
    by (simp add: breaker_settle_def on_success_def)
  show "state (breaker_settle cb (Inr v) t) = (if state cb = Open then Open else Closed)"
    by (cases "state cb") (simp_all add: breaker_settle_def on_success_def)
next
  assume "executed (breaker_call cb now fn) \<and> settled (breaker_call cb now fn) = Inr v"
  then show "failures (breaker (breaker_call cb now fn)) = 0"
    and "state (breaker (breaker_call cb now fn)) = Closed"
    using sequential_success_closes [of cb now fn v] by simp_all
next
  let ?r = "breaker_events (new_run (createCircuitBreaker o1 o2 o3)) es"
  assume opens: "state (closure ?r) \<noteq> Open \<and> state (closure (breaker_step ?r ev)) = Open"
  then have step: "(\<exists>error t'. ev = Settle (Inl error) t') \<and>
      threshold (closure ?r) \<le> real_of_int (failures (closure (breaker_step ?r ev)))"
    using breaker_step_opens [of ?r ev] by simp
  then show "\<exists>error t'. ev = Settle (Inl error) t'" by simp
  have "failures (closure (new_run (createCircuitBreaker o1 o2 o3)))
          \<le> int (failures_since_success (new_run (createCircuitBreaker o1 o2 o3)))"
    by (simp add: new_run_def createCircuitBreaker_def)
  then have "failures (closure ?r) \<le> int (failures_since_success ?r)"
    by (rule breaker_events_counter)
  then have "failures (closure (breaker_step ?r ev))
               \<le> int (failures_since_success (breaker_step ?r ev))"
    by (rule breaker_step_counter)
  then have "real_of_int (failures (closure (breaker_step ?r ev)))
               \<le> real (failures_since_success (breaker_step ?r ev))"
    by (metis of_int_le_iff of_int_of_nat_eq)
  moreover have "threshold (closure ?r) = threshold (createCircuitBreaker o1 o2 o3)"
    by (simp add: breaker_events_threshold new_run_def)
  ultimately show "threshold (createCircuitBreaker o1 o2 o3)
      \<le> real (failures_since_success (breaker_step ?r ev))"
    using step by simp
qed

theorem success_resets_failure_count_witness:
  "executed (breaker_call (tripped_breaker 5) 31001 succeeding_fn) \<and>
   settled (breaker_call (tripped_breaker 5) 31001 succeeding_fn) = Inr 7 \<and>
   failures (breaker (breaker_call (tripped_breaker 5) 31001 succeeding_fn)) = 0 \<and>
   state (breaker (breaker_call (tripped_breaker 5) 31001 succeeding_fn)) = Closed \<and>
   state (closure (breaker_events (new_run (createCircuitBreaker (Some 2) None None))
                     separated_failures)) \<noteq> Open \<and>
   failures (closure (breaker_events (new_run (createCircuitBreaker (Some 2) None None))
                        separated_failures)) = 1 \<and>
   state (closure (breaker_step
                     (breaker_events (new_run (createCircuitBreaker (Some 2) None None))
                        separated_failures)
                     late_failure)) = Open \<and>
   threshold (createCircuitBreaker (Some 2) None None)
     \<le> real (failures_since_success
                (breaker_step
                   (breaker_events (new_run (createCircuitBreaker (Some 2) None None))
                      separated_failures)
                   late_failure))"
proof -
  have run: "state (closure (breaker_events (new_run (createCircuitBreaker (Some 2) None None))
                     separated_failures)) \<noteq> Open"
    "failures (closure (breaker_events (new_run (createCircuitBreaker (Some 2) None None))
                        separated_failures)) = 1"
    "state (closure (breaker_step
                     (breaker_events (new_run (createCircuitBreaker (Some 2) None None))
                        separated_failures)
                     late_failure)) = Open"
    by (simp_all add: createCircuitBreaker_def new_run_def separated_failures_def late_failure_def
          breaker_enter_def breaker_settle_def check_reset_def on_failure_def on_success_def
          Let_def)
  have call: "executed (breaker_call (tripped_breaker 5) 31001 succeeding_fn)"
    "settled (breaker_call (tripped_breaker 5) 31001 succeeding_fn) = Inr 7"
    by (simp_all add: tripped_breaker_def succeeding_fn_def breaker_call_def breaker_enter_def
          check_reset_def race_def Let_def)
  show ?thesis
    using run call
      success_resets_failure_count
        [of "tripped_breaker 5" 7 0 31001 succeeding_fn "Some 2" None None separated_failures
            late_failure]
    by simp
qed

subsection \<open>Resource ledger\<close>

lemma map_size_set: "map_size (map_set k v m) \<le> map_size m + 1"
  by (induction m) (auto simp add: map_size_def)

lemma map_size_delete: "map_size (map_delete k m) \<le> map_size m"
  by (induction m) (auto simp add: map_size_def)

lemma map_size_delete_present:
  "map_get m k = Some v \<Longrightarrow> map_size (map_delete k m) = map_size m - 1"
  by (induction m) (auto simp add: map_size_def split: if_splits)

lemma kill_all_limits [simp]: "limits (kill_all ps rm) = limits rm"
  by (induction ps rm rule: kill_all.induct) (auto split: sum.splits)

lemma unregisterConnection_limits [simp]:
  "limits (snd (unregisterConnection rm i)) = limits rm"
  by (auto simp add: unregisterConnection_def Let_def split: option.splits sum.splits)

lemma unregisterFileHandle_limits [simp]:
  "limits (snd (unregisterFileHandle rm i)) = limits rm"
  by (auto simp add: unregisterFileHandle_def Let_def split: option.splits sum.splits)

lemma unregister_each_limits:
  "(\<And>rm i. limits (snd (u rm i)) = limits rm) \<Longrightarrow>
   limits (snd (unregister_each u ks rm)) = limits rm"
  by (induction ks arbitrary: rm) (auto split: prod.splits simp add: Let_def, metis snd_conv)

lemma cleanup_empties:
  "fst (cleanup rm) = Inr () \<and> processes (snd (cleanup rm)) = [] \<and>
   timers (snd (cleanup rm)) = [] \<and> connections (snd (cleanup rm)) = [] \<and>
   fileHandles (snd (cleanup rm)) = []"
  by (simp add: cleanup_def allSettled_def Let_def split: prod.splits)

lemma cleanup_limits [simp]: "limits (snd (cleanup rm)) = limits rm"
  apply (simp add: cleanup_def allSettled_def Let_def split: prod.splits)
  apply (intro allI impI)
  subgoal for a b c d
    using unregister_each_limits [of unregisterFileHandle "map fst (fileHandles b)" b]
      unregister_each_limits [of unregisterConnection
        "map fst (connections (kill_all (processes rm) rm))" "kill_all (processes rm) rm"]
    by simp
  done

lemma ledger_step_limits [simp]: "limits (snd (ledger_step rm c)) = limits rm"
  by (cases c)
     (auto simp add: registerProcess_def unregisterProcess_def registerTimer_def
        unregisterTimer_def registerConnection_def registerFileHandle_def
        split: option.splits sum.splits)

lemma ledger_step_within_limits:
  assumes "fixed_limits rm" and "within_limits rm"
  shows "within_limits (snd (ledger_step rm c))"
proof (cases c)
  case Cleanup
  with assms show ?thesis
    using cleanup_empties [of rm]
    by (simp add: within_limits_def getUsage_def map_size_def fixed_limits_def)
next
  case (RegisterProcess i p)
  with assms show ?thesis
    using map_size_set [of i p "processes rm"]
    by (auto simp add: within_limits_def getUsage_def registerProcess_def)
next
  case (UnregisterProcess i)
  with assms show ?thesis
    using map_size_delete [of i "processes rm"]
    by (auto simp add: within_limits_def getUsage_def unregisterProcess_def
          split: option.splits sum.splits)
next
  case (RegisterTimer i t)
  with assms show ?thesis
    using map_size_set [of i t "timers rm"]
    by (auto simp add: within_limits_def getUsage_def registerTimer_def)
next
  case (UnregisterTimer i)
  with assms show ?thesis
    using map_size_delete [of i "timers rm"]
    by (auto simp add: within_limits_def getUsage_def unregisterTimer_def split: option.splits)
next
  case (RegisterConnection i h)
  with assms show ?thesis
    using map_size_set [of i h "connections rm"]
    by (auto simp add: within_limits_def getUsage_def registerConnection_def)
next
  case (UnregisterConnection i)
  with assms show ?thesis
    using map_size_delete [of i "connections rm"]
    by (auto simp add: within_limits_def getUsage_def unregisterConnection_def Let_def
          split: option.splits sum.splits)
next
  case (RegisterFileHandle i h)
  with assms show ?thesis
    using map_size_set [of i h "fileHandles rm"]
    by (auto simp add: within_limits_def getUsage_def registerFileHandle_def)
next
  case (UnregisterFileHandle i)
  with assms show ?thesis
    using map_size_delete [of i "fileHandles rm"]
    by (auto simp add: within_limits_def getUsage_def unregisterFileHandle_def Let_def
          split: option.splits sum.splits)
qed

lemma ledger_run_within_limits:
  "fixed_limits rm \<Longrightarrow> within_limits rm \<Longrightarrow>
   fixed_limits (ledger_run rm cs) \<and> within_limits (ledger_run rm cs)"
proof (induction cs arbitrary: rm)
  case Nil
  then show ?case by simp
next
  case (Cons c cs)
  have "fixed_limits (snd (ledger_step rm c))"
    using Cons.prems by (simp add: fixed_limits_def)
  moreover have "within_limits (snd (ledger_step rm c))"
    using Cons.prems by (simp add: ledger_step_within_limits)
  ultimately show ?case using Cons.IH by simp
qed

lemma register_at_cap:
  assumes "register_kind c = Some k" and "kind_cap k rm \<le> kind_count k rm"
  shows "ledger_step rm c = (Inl (JsError PlainError (kind_message k)), rm)"
  using assms
  by (cases c)
     (auto simp add: getUsage_def registerProcess_def registerTimer_def registerConnection_def
        registerFileHandle_def)

text \<open>
  \<^bold>\<open>C2\<close>, as stated, fails in its second half. After ten processes have been registered
  the count has reached the cap of 10; the next \<^verbatim>\<open>registerProcess\<close> does fail, but what it
  throws is a plain \<^verbatim>\<open>Error\<close> with the message \<^verbatim>\<open>Maximum number of processes reached\<close>, not
  a \<^verbatim>\<open>ResourceExhaustedError\<close>.
\<close>

theorem register_error_class_counterexample:
  "usage_processes (getUsage ten_processes) = maxProcesses (limits ten_processes) \<and>
   fst (registerProcess ten_processes ''p10'' idle_process)
     = Inl (JsError PlainError ''Maximum number of processes reached'') \<and>
   \<not> throws_class ResourceExhaustedError
       (fst (registerProcess ten_processes ''p10'' idle_process))"
  by (simp add: ten_processes_def new_ResourceManager_def registerProcess_def map_size_def
        getUsage_def throws_class_def)

text \<open>
  \<^bold>\<open>C2\<close>, amended. After every sequence of calls on a new ledger (register and unregister
  of the four kinds, and \<^verbatim>\<open>cleanup\<close>) the count of each kind is at most its cap. In every
  ledger state, a register call of some kind made when that kind's count has reached
  its cap fails by throwing a plain \<^verbatim>\<open>Error\<close> whose message is
  \<^verbatim>\<open>Maximum number of <kind> reached\<close>, and leaves the ledger unchanged.
\<close>

theorem ledger_counts_within_caps:
  "within_limits (ledger_run new_ResourceManager calls) \<and>
   (register_kind c = Some k \<and> kind_cap k rm \<le> kind_count k rm \<longrightarrow>
      ledger_step rm c = (Inl (JsError PlainError (kind_message k)), rm) \<and>
      throws_class PlainError (fst (ledger_step rm c)))"
proof -
  have "fixed_limits new_ResourceManager" and "within_limits new_ResourceManager"
    by (simp_all add: fixed_limits_def within_limits_def new_ResourceManager_def getUsage_def
          map_size_def)
  then have "within_limits (ledger_run new_ResourceManager calls)"
    using ledger_run_within_limits by blast
  then show ?thesis
    using register_at_cap [of c k rm] by (auto simp add: throws_class_def)
qed

theorem ledger_counts_within_caps_witness:
  "within_limits ten_processes \<and>
   register_kind (RegisterProcess ''p10'' idle_process) = Some Process \<and>
   kind_cap Process ten_processes \<le> kind_count Process ten_processes \<and>
   ledger_step ten_processes (RegisterProcess ''p10'' idle_process)
     = (Inl (JsError PlainError ''Maximum number of processes reached''), ten_processes)"
proof -
  have at_cap: "kind_cap Process ten_processes \<le> kind_count Process ten_processes"
    by (simp add: ten_processes_def new_ResourceManager_def registerProcess_def map_size_def
          getUsage_def)
  have run: "ten_processes =
     ledger_run new_ResourceManager
       [RegisterProcess ''p0'' idle_process, RegisterProcess ''p1'' idle_process,
        RegisterProcess ''p2'' idle_process, RegisterProcess ''p3'' idle_process,
        RegisterProcess ''p4'' idle_process, RegisterProcess ''p5'' idle_process,
        RegisterProcess ''p6'' idle_process, RegisterProcess ''p7'' idle_process,
        RegisterProcess ''p8'' idle_process, RegisterProcess ''p9'' idle_process]"
    by (rule ten_processes_def)
  show ?thesis
    using at_cap
      ledger_counts_within_caps
        [of "[RegisterProcess ''p0'' idle_process, RegisterProcess ''p1'' idle_process,
              RegisterProcess ''p2'' idle_process, RegisterProcess ''p3'' idle_process,
              RegisterProcess ''p4'' idle_process, RegisterProcess ''p5'' idle_process,
              RegisterProcess ''p6'' idle_process, RegisterProcess ''p7'' idle_process,
              RegisterProcess ''p8'' idle_process, RegisterProcess ''p9'' idle_process]"
            "RegisterProcess ''p10'' idle_process" Process ten_processes]
    unfolding run [symmetric] by simp
qed

text \<open>
  \<^bold>\<open>C8.\<close> In every ledger state \<^verbatim>\<open>cleanup()\<close> resolves, whatever the \<^verbatim>\<open>kill\<close> and \<^verbatim>\<open>close\<close>
  calls of the individual resources do, and afterwards \<^verbatim>\<open>getUsage()\<close> reports zero
  processes, connections, file handles and timers.
\<close>

theorem cleanup_always_resolves:
  "fst (cleanup rm) = Inr () \<and>
   usage_processes (getUsage (snd (cleanup rm))) = 0 \<and>
   usage_connections (getUsage (snd (cleanup rm))) = 0 \<and>
   usage_fileHandles (getUsage (snd (cleanup rm))) = 0 \<and>
   usage_timers (getUsage (snd (cleanup rm))) = 0"
  using cleanup_empties [of rm] by (simp add: getUsage_def map_size_def)

text \<open>An instance in which the process, the connection and the file handle all throw on
  teardown: the three errors are logged and the promise still resolves.\<close>

theorem cleanup_always_resolves_witness:
  "usage_processes (getUsage stubborn_ledger) = 1 \<and>
   usage_timers (getUsage stubborn_ledger) = 1 \<and>
   usage_connections (getUsage stubborn_ledger) = 1 \<and>
   usage_fileHandles (getUsage stubborn_ledger) = 1 \<and>
   logged (snd (cleanup stubborn_ledger)) =
     [(''Error killing process'', JsError PlainError ''EPERM''),
      (''Error closing connection'', JsError PlainError ''EBADF''),
      (''Error closing file handle'', JsError PlainError ''EBADF'')] \<and>
   fst (cleanup stubborn_ledger) = Inr () \<and>
   usage_processes (getUsage (snd (cleanup stubborn_ledger))) = 0 \<and>
   usage_connections (getUsage (snd (cleanup stubborn_ledger))) = 0 \<and>
   usage_fileHandles (getUsage (snd (cleanup stubborn_ledger))) = 0 \<and>
   usage_timers (getUsage (snd (cleanup stubborn_ledger))) = 0"
proof -
  have before:
    "usage_processes (getUsage stubborn_ledger) = 1 \<and>
     usage_timers (getUsage stubborn_ledger) = 1 \<and>
     usage_connections (getUsage stubborn_ledger) = 1 \<and>
     usage_fileHandles (getUsage stubborn_ledger) = 1"
    by (simp add: stubborn_ledger_def new_ResourceManager_def registerProcess_def
          registerTimer_def registerConnection_def registerFileHandle_def map_size_def
          getUsage_def)
  have errors:
    "logged (snd (cleanup stubborn_ledger)) =
       [(''Error killing process'', JsError PlainError ''EPERM''),
        (''Error closing connection'', JsError PlainError ''EBADF''),
        (''Error closing file handle'', JsError PlainError ''EBADF'')]"
    by (simp add: stubborn_ledger_def new_ResourceManager_def registerProcess_def
          registerTimer_def registerConnection_def registerFileHandle_def map_size_def
          cleanup_def kill_def unregisterConnection_def unregisterFileHandle_def
          close_connection_def close_file_def broken_handle_def allSettled_def Let_def)
  show ?thesis
    using before errors cleanup_always_resolves [of stubborn_ledger] by simp
qed

subsection \<open>Connection pool\<close>

lemma length_butlast_real:
  "xs \<noteq> [] \<Longrightarrow> real (length (butlast xs)) = real (length xs) - 1"
  by (cases xs rule: rev_cases) auto

lemma length_warm_up:
  "length (concat (map (\<lambda>i. case createFn i of Inl e \<Rightarrow> [] | Inr c \<Rightarrow> [c]) js)) \<le> length js"
  by (induction js) (auto split: sum.splits)

lemma below_whole_cap:
  assumes "real_of_int n < m" and "m \<in> \<int>"
  shows "real_of_int n + 1 \<le> m"
proof -
  from assms(2) obtain k where k: "m = real_of_int k" by (auto elim: Ints_cases)
  with assms(1) have "n < k" by simp
  then have "n + 1 \<le> k" by simp
  then have "real_of_int (n + 1) \<le> real_of_int k" by (simp only: of_int_le_iff)
  with k show ?thesis by simp
qed

lemma initialize_invariant:
  assumes "minSize pool \<le> maxSize pool" and "0 \<le> maxSize pool" and "maxSize pool \<in> \<int>"
    and "available pool = []" and "inUse pool = []"
  shows "pool_invariant (initialize createFn pool)"
proof -
  from assms(3) obtain k where k: "maxSize pool = real_of_int k" by (auto elim: Ints_cases)
  have "length (concat (map (\<lambda>i. case createFn i of Inl e \<Rightarrow> [] | Inr c \<Rightarrow> [c])
                         [0 ..< nat \<lceil>minSize pool\<rceil>])) \<le> nat \<lceil>minSize pool\<rceil>"
    using length_warm_up [of createFn "[0 ..< nat \<lceil>minSize pool\<rceil>]"] by simp
  moreover have "\<lceil>minSize pool\<rceil> \<le> k"
    using assms(1) k by (simp add: ceiling_le)
  moreover have "0 \<le> k" using assms(2) k by simp
  ultimately have
    "int (length (concat (map (\<lambda>i. case createFn i of Inl e \<Rightarrow> [] | Inr c \<Rightarrow> [c])
                            [0 ..< nat \<lceil>minSize pool\<rceil>]))) \<le> k"
    by linarith
  then have
    "real (length (concat (map (\<lambda>i. case createFn i of Inl e \<Rightarrow> [] | Inr c \<Rightarrow> [c])
                             [0 ..< nat \<lceil>minSize pool\<rceil>]))) \<le> real_of_int k"
    by (metis of_int_le_iff of_int_of_nat_eq)
  with assms(4,5) k show ?thesis
    by (simp add: pool_invariant_def initialize_def map_size_def)
qed

lemma acquire_finish_invariant:
  assumes "real (length (available pool)) + real_of_int (map_size (inUse pool)) + 1 \<le> maxSize pool"
  shows "pool_invariant (fst (snd (acquire_finish (pool, rm) ident connection)))"
proof -
  have grow: "\<And>c. map_size (map_set ident c (inUse pool)) \<le> map_size (inUse pool) + 1"
    by (rule map_size_set)
  show ?thesis
  proof (cases connection)
    case None
    with assms show ?thesis by (simp add: acquire_finish_def pool_invariant_def)
  next
    case (Some c)
    have "real_of_int (map_size (map_set ident c (inUse pool)))
            \<le> real_of_int (map_size (inUse pool)) + 1"
      using grow [of c] by (metis of_int_1 of_int_add of_int_le_iff)
    with Some assms show ?thesis
      by (auto simp add: acquire_finish_def pool_invariant_def Let_def
            split: prod.splits sum.splits)
  qed
qed

text \<open>
  What the two capacity tests achieve when nothing runs between a test and the update it
  guards. For a pool whose stored \<^verbatim>\<open>maxSize\<close> is a whole number and not negative and whose
  stored \<^verbatim>\<open>minSize\<close> is at most \<^verbatim>\<open>maxSize\<close>, the bound holds once the warm-up has finished
  on the pool as constructed, and a pass through \<^verbatim>\<open>acquire\<close> that nothing interrupts, and
  every \<^verbatim>\<open>release\<close>, keep it.
\<close>

lemma acquire_invariant:
  assumes "pool_invariant pool" and "maxSize pool \<in> \<int>"
  shows "pool_invariant (fst (snd (acquire (pool, rm) ident created)))"
proof -
  let ?pool1 = "pool\<lparr>available := butlast (available pool)\<rparr>"
  have shrink: "real (length (butlast (available pool))) \<le> real (length (available pool))"
    by simp
  have pop: "available pool \<noteq> [] \<Longrightarrow>
      real (length (butlast (available pool))) = real (length (available pool)) - 1"
    by (rule length_butlast_real)
  show ?thesis
  proof (cases "(available pool = [] \<or> \<not> truthy (last (available pool))) \<and>
                real_of_int (map_size (inUse pool)) < maxSize pool")
    case True
    then have room: "real_of_int (map_size (inUse pool)) + 1 \<le> maxSize pool"
      using assms(2) below_whole_cap by blast
    have started: "acquire_begin (pool, rm) ident = (Creating, ?pool1, rm)"
      using True by (auto simp add: acquire_begin_def Let_def)
    have "real (length (available ?pool1)) + real_of_int (map_size (inUse ?pool1)) + 1
            \<le> maxSize ?pool1"
    proof (cases "available pool = []")
      case True
      with room show ?thesis by simp
    next
      case False
      with pop assms(1) show ?thesis by (simp add: pool_invariant_def)
    qed
    then have fin: "\<And>connection.
        pool_invariant (fst (snd (acquire_finish (?pool1, rm) ident connection)))"
      by (rule acquire_finish_invariant)
    have rest: "pool_invariant ?pool1"
      using assms(1) shrink by (simp add: pool_invariant_def)
    show ?thesis
      using started fin rest
      by (cases created) (simp_all add: acquire_def acquire_resume_def)
  next
    case False
    show ?thesis
    proof (cases "available pool = []")
      case True
      with False assms(1) show ?thesis
        by (auto simp add: acquire_def acquire_begin_def acquire_finish_def pool_invariant_def
              Let_def)
    next
      case nonempty: False
      then have "real (length (available ?pool1)) + real_of_int (map_size (inUse ?pool1)) + 1
                   \<le> maxSize ?pool1"
        using pop assms(1) by (simp add: pool_invariant_def)
      then have fin: "pool_invariant
          (fst (snd (acquire_finish (?pool1, rm) ident (Some (last (available pool))))))"
        by (rule acquire_finish_invariant)
      have started: "acquire_begin (pool, rm) ident
                     = acquire_finish (?pool1, rm) ident (Some (last (available pool)))"
        using False nonempty by (auto simp add: acquire_begin_def Let_def)
      have "fst (acquire_finish (?pool1, rm) ident (Some (last (available pool)))) \<noteq> Creating"
        by (auto simp add: acquire_finish_def Let_def split: prod.splits sum.splits)
      with started fin show ?thesis
        by (cases "acquire_finish (?pool1, rm) ident (Some (last (available pool)))")
           (auto simp add: acquire_def split: acquire_result.splits)
    qed
  qed
qed

lemma release_invariant:
  assumes "pool_invariant pool"
  shows "pool_invariant (fst (snd (release (pool, rm) ident destroyed)))"
proof (cases "map_get (inUse pool) ident")
  case None
  with assms show ?thesis by (simp add: release_def)
next
  case (Some c)
  from map_size_delete_present [OF Some]
  have "map_size (map_delete ident (inUse pool)) = map_size (inUse pool) - 1" .
  with Some assms show ?thesis
    by (auto simp add: release_def pool_invariant_def Let_def split: sum.splits prod.splits)
qed

lemma acquire_maxSize [simp]:
  "maxSize (fst (snd (acquire (pool, rm) ident created))) = maxSize pool"
  by (auto simp add: acquire_def acquire_begin_def acquire_resume_def acquire_finish_def Let_def
        split: prod.splits sum.splits acquire_result.splits option.splits)

lemma release_maxSize [simp]:
  "maxSize (fst (snd (release (pool, rm) ident destroyed))) = maxSize pool"
  by (auto simp add: release_def Let_def split: prod.splits sum.splits option.splits)

lemma pool_step_invariant:
  assumes "pool_invariant (fst s)" and "maxSize (fst s) \<in> \<int>"
  shows "pool_invariant (fst (pool_step s c)) \<and> maxSize (fst (pool_step s c)) \<in> \<int>"
  using assms acquire_invariant release_invariant
  by (cases c; cases s) auto

lemma pool_run_invariant:
  "pool_invariant (fst s) \<Longrightarrow> maxSize (fst s) \<in> \<int> \<Longrightarrow> pool_invariant (fst (pool_run s cs))"
proof (induction cs arbitrary: s)
  case Nil
  then show ?case by simp
next
  case (Cons c cs)
  from pool_step_invariant [OF Cons.prems, of c] Cons.IH show ?case by simp
qed

lemma sequential_pool_invariant:
  assumes "minSize (construct_pool opt_min opt_max) \<le> maxSize (construct_pool opt_min opt_max)"
    and "0 \<le> maxSize (construct_pool opt_min opt_max)"
    and "maxSize (construct_pool opt_min opt_max) \<in> \<int>"
  shows "pool_invariant
           (fst (pool_run (new_ConnectionPool opt_min opt_max createFn, rm) calls))"
proof -
  have "pool_invariant (new_ConnectionPool opt_min opt_max createFn)"
    unfolding new_ConnectionPool_def
    using assms by (intro initialize_invariant) (simp_all add: construct_pool_def)
  moreover have "maxSize (new_ConnectionPool opt_min opt_max createFn) \<in> \<int>"
    using assms(3) by (simp add: new_ConnectionPool_def initialize_def)
  ultimately show ?thesis
    using pool_run_invariant [of "(new_ConnectionPool opt_min opt_max createFn, rm)" calls]
    by simp
qed

lemma release_unknown_id:
  "map_get (inUse pool) ident = None \<Longrightarrow> release (pool, rm) ident destroyed = (Inr (), pool, rm)"
  by (simp add: release_def)

text \<open>
  \<^bold>\<open>C3\<close> states the bound that the tests \<^verbatim>\<open>inUse.size < maxSize\<close> in \<^verbatim>\<open>acquire\<close> and
  \<^verbatim>\<open>available.length < maxSize\<close> in \<^verbatim>\<open>release\<close> are there to keep, and the code breaks it.
  Take the pool of \<^verbatim>\<open>createSQLitePool\<close>, \<^verbatim>\<open>minSize: 1, maxSize: 1\<close>. The constructor
  returns before the warm-up has finished; the pool is empty and the bound holds. A
  first \<^verbatim>\<open>acquire\<close> finds nothing available, passes the capacity test and awaits a new
  connection. The warm-up finishes and pushes the connection it has created; the bound
  holds. The \<^verbatim>\<open>acquire\<close> goes on and inserts its connection: one connection is available
  and one is in use, two against \<^verbatim>\<open>maxSize = 1\<close>, and it is the \<^verbatim>\<open>acquire\<close> step that has
  broken the bound. The same happens without the warm-up (here its creation was
  refused): two \<^verbatim>\<open>acquire\<close> calls both pass the capacity test before either inserts, and
  both insert.
\<close>

theorem pool_exceeds_maxSize:
  "minSize (fst sqlite_pool) \<le> maxSize (fst sqlite_pool) \<and>
   maxSize (fst sqlite_pool) = 1 \<and>
   pool_invariant (fst sqlite_pool) \<and>
   fst (acquire_begin sqlite_pool ''conn_1'') = Creating \<and>
   pool_invariant (fst sqlite_creating) \<and>
   pool_invariant (fst sqlite_warmed) \<and>
   fst (acquire_resume sqlite_warmed ''conn_1'' (Inr (plain_connection 7)))
     = Acquired ''conn_1'' (plain_connection 7) \<and>
   length (available (fst sqlite_acquired)) = 1 \<and>
   map_size (inUse (fst sqlite_acquired)) = 1 \<and>
   \<not> pool_invariant (fst sqlite_acquired) \<and>
   pool_invariant (fst cold_pool) \<and>
   fst (acquire_begin cold_pool ''conn_1'') = Creating \<and>
   fst (acquire_begin (snd (acquire_begin cold_pool ''conn_1'')) ''conn_2'') = Creating \<and>
   pool_invariant (fst both_creating) \<and>
   pool_invariant (fst first_inserted) \<and>
   fst (acquire_resume first_inserted ''conn_2'' (Inr (plain_connection 8)))
     = Acquired ''conn_2'' (plain_connection 8) \<and>
   map_size (inUse (fst both_inserted)) = 2 \<and>
   \<not> pool_invariant (fst both_inserted)"
  by (simp add: sqlite_pool_def sqlite_creating_def sqlite_warmed_def sqlite_acquired_def
        cold_pool_def both_creating_def first_inserted_def both_inserted_def
        new_ConnectionPool_def construct_pool_def or_default_def
        initialize_def fresh_connection_def refused_connection_def pool_invariant_def
        map_size_def acquire_begin_def acquire_resume_def acquire_finish_def
        plain_connection_def new_ResourceManager_def registerConnection_def Let_def)

subsection \<open>Metric keys\<close>

lemma set_insert_by [simp]: "set (insert_by cmp x ys) = insert x (set ys)"
  by (induction ys) auto

lemma distinct_insert_by [simp]: "distinct (insert_by cmp x ys) \<longleftrightarrow> x \<notin> set ys \<and> distinct ys"
  by (induction ys) auto

lemma js_sort_Nil [simp]: "js_sort cmp [] = []"
  by (simp add: js_sort_def)

lemma js_sort_Cons [simp]: "js_sort cmp (x # xs) = insert_by cmp x (js_sort cmp xs)"
  by (simp add: js_sort_def)

lemma set_js_sort [simp]: "set (js_sort cmp xs) = set xs"
  by (induction xs) auto

lemma distinct_js_sort [simp]: "distinct (js_sort cmp xs) \<longleftrightarrow> distinct xs"
  by (induction xs) auto

lemma sorted_insert_by:
  assumes total: "\<forall>a \<in> S. \<forall>b \<in> S. cmp a b \<le> 0 \<or> cmp b a \<le> 0"
    and trans: "\<forall>a \<in> S. \<forall>b \<in> S. \<forall>c \<in> S. cmp a b \<le> 0 \<longrightarrow> cmp b c \<le> 0 \<longrightarrow> cmp a c \<le> 0"
    and "x \<in> S" and "set ys \<subseteq> S" and "sorted_wrt (\<lambda>a b. cmp a b \<le> 0) ys"
  shows "sorted_wrt (\<lambda>a b. cmp a b \<le> 0) (insert_by cmp x ys)"
  using assms(3-)
proof (induction ys)
  case Nil
  then show ?case by simp
next
  case (Cons y ys)
  then have y: "y \<in> S" and ys: "set ys \<subseteq> S" and x: "x \<in> S" by simp_all
  show ?case
  proof (cases "cmp x y \<le> 0")
    case True
    have "\<forall>z \<in> set ys. cmp x z \<le> 0"
    proof
      fix z assume z: "z \<in> set ys"
      with Cons.prems have "cmp y z \<le> 0" by simp
      moreover have "z \<in> S" using z ys by blast
      ultimately show "cmp x z \<le> 0"
        using trans x y True by blast
    qed
    with True Cons.prems show ?thesis by simp
  next
    case False
    then have "cmp y x \<le> 0" using total x y by blast
    moreover have "sorted_wrt (\<lambda>a b. cmp a b \<le> 0) (insert_by cmp x ys)"
      using Cons.IH x ys Cons.prems by simp
    ultimately show ?thesis using False Cons.prems by simp
  qed
qed

lemma sorted_js_sort:
  assumes total: "\<forall>a \<in> S. \<forall>b \<in> S. cmp a b \<le> 0 \<or> cmp b a \<le> 0"
    and trans: "\<forall>a \<in> S. \<forall>b \<in> S. \<forall>c \<in> S. cmp a b \<le> 0 \<longrightarrow> cmp b c \<le> 0 \<longrightarrow> cmp a c \<le> 0"
    and "set xs \<subseteq> S"
  shows "sorted_wrt (\<lambda>a b. cmp a b \<le> 0) (js_sort cmp xs)"
  using assms(3)
proof (induction xs)
  case Nil
  then show ?case by simp
next
  case (Cons x xs)
  then have "sorted_wrt (\<lambda>a b. cmp a b \<le> 0) (js_sort cmp xs)"
    and "x \<in> S" and "set (js_sort cmp xs) \<subseteq> S" by simp_all
  then have "sorted_wrt (\<lambda>a b. cmp a b \<le> 0) (insert_by cmp x (js_sort cmp xs))"
    by (rule sorted_insert_by [OF total trans, rotated 2])
  then show ?case by simp
qed

lemma sorted_distinct_unique:
  assumes antisym: "\<forall>a \<in> set xs. \<forall>b \<in> set xs. le a b \<longrightarrow> le b a \<longrightarrow> a = b"
    and "sorted_wrt le xs" and "sorted_wrt le ys"
    and "distinct xs" and "distinct ys" and "set xs = set ys"
  shows "xs = ys"
  using assms
proof (induction xs arbitrary: ys)
  case Nil
  then show ?case by simp
next
  case (Cons x xs)
  then obtain y ys' where ys: "ys = y # ys'" by (cases ys) auto
  from Cons.prems(6) ys have sets: "insert x (set xs) = insert y (set ys')" by simp
  have "x = y"
  proof (rule ccontr)
    assume neq: "x \<noteq> y"
    have "x \<in> insert y (set ys')" using sets by auto
    with neq have x: "x \<in> set ys'" by simp
    have "y \<in> insert x (set xs)" using sets by auto
    with neq have y: "y \<in> set xs" by simp
    from Cons.prems(3) ys x have "le y x" by simp
    moreover from Cons.prems(2) y have "le x y" by simp
    moreover have "x \<in> set (x # xs)" and "y \<in> set (x # xs)" using y by simp_all
    ultimately have "x = y" using Cons.prems(1) by blast
    with neq show False by simp
  qed
  have "xs = ys'"
  proof (rule Cons.IH)
    from Cons.prems(4,5) ys \<open>x = y\<close> have "y \<notin> set xs" and "y \<notin> set ys'" by simp_all
    with sets \<open>x = y\<close> show "set xs = set ys'" by (simp add: insert_ident)
    show "\<forall>a \<in> set xs. \<forall>b \<in> set xs. le a b \<longrightarrow> le b a \<longrightarrow> a = b"
      using Cons.prems(1) by simp
    show "sorted_wrt le xs" using Cons.prems(2) by simp
    show "sorted_wrt le ys'" using Cons.prems(3) ys by simp
    show "distinct xs" using Cons.prems(4) by simp
    show "distinct ys'" using Cons.prems(5) ys by simp
  qed
  with \<open>x = y\<close> ys show ?case by simp
qed

lemma by_name_apply: "by_name cmp e1 e2 = cmp (fst e1) (fst e2)"
  by (simp add: by_name_def case_prod_beta)

lemma sorted_tags_unique:
  assumes same: "same_tags t1 t2" and ord: "orders_names cmp (map fst t1)"
  shows "js_sort (by_name cmp) t1 = js_sort (by_name cmp) t2"
proof -
  from same have d1: "distinct (map fst t1)" and d2: "distinct (map fst t2)"
    and eq: "set t1 = set t2" by (simp_all add: same_tags_def)
  from ord have
    o1: "\<forall>a \<in> set (map fst t1). \<forall>b \<in> set (map fst t1). cmp a b \<le> 0 \<or> cmp b a \<le> 0" and
    o2: "\<forall>a \<in> set (map fst t1). \<forall>b \<in> set (map fst t1). \<forall>c \<in> set (map fst t1).
           cmp a b \<le> 0 \<longrightarrow> cmp b c \<le> 0 \<longrightarrow> cmp a c \<le> 0" and
    o3: "\<forall>a \<in> set (map fst t1). \<forall>b \<in> set (map fst t1). cmp a b \<le> 0 \<longrightarrow> cmp b a \<le> 0 \<longrightarrow> a = b"
    unfolding orders_names_def by blast+
  have total: "\<forall>a \<in> set t1. \<forall>b \<in> set t1. by_name cmp a b \<le> 0 \<or> by_name cmp b a \<le> 0"
  proof (intro ballI)
    fix a b assume "a \<in> set t1" and "b \<in> set t1"
    then have "fst a \<in> set (map fst t1)" and "fst b \<in> set (map fst t1)" by simp_all
    with o1 show "by_name cmp a b \<le> 0 \<or> by_name cmp b a \<le> 0"
      unfolding by_name_apply by blast
  qed
  have trans: "\<forall>a \<in> set t1. \<forall>b \<in> set t1. \<forall>c \<in> set t1.
      by_name cmp a b \<le> 0 \<longrightarrow> by_name cmp b c \<le> 0 \<longrightarrow> by_name cmp a c \<le> 0"
  proof (intro ballI)
    fix a b c assume "a \<in> set t1" and "b \<in> set t1" and "c \<in> set t1"
    then have "fst a \<in> set (map fst t1)" and "fst b \<in> set (map fst t1)"
      and "fst c \<in> set (map fst t1)" by simp_all
    with o2 show "by_name cmp a b \<le> 0 \<longrightarrow> by_name cmp b c \<le> 0 \<longrightarrow> by_name cmp a c \<le> 0"
      unfolding by_name_apply by blast
  qed
  have antisym: "\<forall>a \<in> set t1. \<forall>b \<in> set t1.
      by_name cmp a b \<le> 0 \<longrightarrow> by_name cmp b a \<le> 0 \<longrightarrow> a = b"
  proof (intro ballI impI)
    fix a b assume a: "a \<in> set t1" and b: "b \<in> set t1"
      and ab: "by_name cmp a b \<le> 0" and ba: "by_name cmp b a \<le> 0"
    from a b have "fst a \<in> set (map fst t1)" and "fst b \<in> set (map fst t1)" by simp_all
    with o3 ab ba have names: "fst a = fst b"
      unfolding by_name_apply by blast
    have pa: "(fst a, snd a) \<in> set t1" using a by simp
    have "(fst b, snd b) \<in> set t1" using b by simp
    then have pb: "(fst a, snd b) \<in> set t1" unfolding names [symmetric] .
    from d1 pa pb have "snd a = snd b" by (rule eq_key_imp_eq_value)
    with names show "a = b" by (simp add: prod_eq_iff)
  qed
  have s1: "sorted_wrt (\<lambda>a b. by_name cmp a b \<le> 0) (js_sort (by_name cmp) t1)"
    by (rule sorted_js_sort [OF total trans]) simp
  have s2: "sorted_wrt (\<lambda>a b. by_name cmp a b \<le> 0) (js_sort (by_name cmp) t2)"
    by (rule sorted_js_sort [OF total trans]) (simp add: eq)
  have "distinct t1" and "distinct t2" using d1 d2 by (simp_all add: distinct_map)
  then have dd1: "distinct (js_sort (by_name cmp) t1)"
    and dd2: "distinct (js_sort (by_name cmp) t2)" by simp_all
  have ss: "set (js_sort (by_name cmp) t1) = set (js_sort (by_name cmp) t2)" using eq by simp
  have anti': "\<forall>a \<in> set (js_sort (by_name cmp) t1). \<forall>b \<in> set (js_sort (by_name cmp) t1).
      by_name cmp a b \<le> 0 \<longrightarrow> by_name cmp b a \<le> 0 \<longrightarrow> a = b"
    using antisym by simp
  show ?thesis
    by (rule sorted_distinct_unique [OF anti' s1 s2 dd1 dd2 ss])
qed

lemma getKey_same_tags:
  assumes "same_tags t1 t2" and "orders_names localeCompare (map fst t1)"
  shows "getKey localeCompare name (Some t1) = getKey localeCompare name (Some t2)"
proof -
  have "js_sort (by_name localeCompare) t1 = js_sort (by_name localeCompare) t2"
    using assms by (rule sorted_tags_unique)
  moreover have "(length t1 = 0) = (length t2 = 0)"
    using assms(1) by (auto simp add: same_tags_def)
  ultimately show ?thesis by (simp add: getKey_def)
qed

lemma map_get_map_set [simp]: "map_get (map_set k v m) k = Some v"
  by (induction m) auto

lemma map_size_set_present:
  "map_get m k = Some w \<Longrightarrow> map_size (map_set k v m) = map_size m"
  by (induction m) (auto simp add: map_size_def split: if_splits)

lemma map_size_set_again [simp]:
  "map_size (map_set k v (map_set k w m)) = map_size (map_set k w m)"
  by (rule map_size_set_present [of _ _ w]) simp

lemma increment_adds:
  "map_get (counters (increment cmp mc name v tags)) (getKey cmp name tags)
     = Some ((case map_get (counters mc) (getKey cmp name tags) of None \<Rightarrow> 0 | Some c \<Rightarrow> c) + v)"
  by (simp add: increment_def Let_def)

lemma increment_again_size:
  "getKey cmp name tags' = getKey cmp name tags \<Longrightarrow>
   map_size (counters (increment cmp (increment cmp mc name v tags) name w tags'))
     = map_size (counters (increment cmp mc name v tags))"
  by (simp add: increment_def Let_def)

lemma gauge_sets:
  "map_get (gauges (gauge cmp mc name v tags)) (getKey cmp name tags) = Some v"
  by (simp add: gauge_def Let_def)

lemma histogram_pushes:
  "\<exists>earlier. map_get (histograms (histogram cmp mc name v tags)) (getKey cmp name tags)
     = Some (earlier @ [v])"
proof (cases "map_get (histograms mc) (getKey cmp name tags)")
  case None
  then show ?thesis by (simp add: histogram_def Let_def)
next
  case (Some vs)
  show ?thesis
  proof (cases vs)
    case Nil
    with Some show ?thesis by (simp add: histogram_def Let_def)
  next
    case (Cons x xs)
    with Some have "map_get (histograms (histogram cmp mc name v tags)) (getKey cmp name tags)
        = Some (if 1000 < Suc (Suc (length xs)) then xs @ [v] else (x # xs) @ [v])"
      by (simp add: histogram_def Let_def)
    then show ?thesis by (cases "1000 < Suc (Suc (length xs))") auto
  qed
qed

lemma histogram_pushes_after:
  assumes "map_get (histograms mc) (getKey cmp name tags) = Some (before @ [v])"
  shows "\<exists>earlier. map_get (histograms (histogram cmp mc name w tags)) (getKey cmp name tags)
           = Some (earlier @ [v, w])"
proof (cases before)
  case Nil
  with assms show ?thesis by (simp add: histogram_def Let_def)
next
  case (Cons x xs)
  with assms have "map_get (histograms (histogram cmp mc name w tags)) (getKey cmp name tags)
      = Some (if 1000 < Suc (Suc (Suc (length xs))) then xs @ [v, w] else (x # xs) @ [v, w])"
    by (simp add: histogram_def Let_def)
  then show ?thesis by (cases "1000 < Suc (Suc (Suc (length xs)))") auto
qed

lemma recordOperation_reported:
  "\<exists>report.
     getOperationStats cmp (recordOperation cmp mc name duration err tags) name tags
       = Some report \<and>
     stat_count (report_stats report)
       = (case map_get (operationStats mc) (getKey cmp name tags) of
            None \<Rightarrow> 0 | Some st \<Rightarrow> stat_count st) + 1 \<and>
     totalTime (report_stats report)
       = (case map_get (operationStats mc) (getKey cmp name tags) of
            None \<Rightarrow> 0 | Some st \<Rightarrow> totalTime st) + duration \<and>
     stat_errors (report_stats report)
       = (case map_get (operationStats mc) (getKey cmp name tags) of
            None \<Rightarrow> 0 | Some st \<Rightarrow> stat_errors st) + (if err then 1 else 0)"
  by (cases "map_get (operationStats mc) (getKey cmp name tags)")
     (simp_all add: recordOperation_def getOperationStats_def Let_def)


lemmas cmp_defs = collation_compare_def ignorable_def upper_case_def primary_weight_def
  case_weight_def

text \<open>
  \<^bold>\<open>C10\<close>, as stated, fails. The tag names \<^verbatim>\<open>a\<close> and \<^verbatim>\<open>a\<close> followed by U+0001 are different
  property names, and \<^verbatim>\<open>localeCompare\<close> answers 0 for them. The sort is stable, so it
  leaves the two entries in the order of the record: the two orderings of the same tags
  give two different keys, and incrementing a counter once with each ordering leaves two
  entries.
\<close>

theorem metric_key_order_counterexample:
  "same_tags tags_a_first tags_a_last \<and>
   collation_compare ''a'' [CHR ''a'', CHR 0x01] = 0 \<and>
   getKey collation_compare ''m'' (Some tags_a_first) = ''m{a:1,a'' @ [CHR 0x01] @ '':2}'' \<and>
   getKey collation_compare ''m'' (Some tags_a_last) = ''m{a'' @ [CHR 0x01] @ '':2,a:1}'' \<and>
   getKey collation_compare ''m'' (Some tags_a_first)
     \<noteq> getKey collation_compare ''m'' (Some tags_a_last) \<and>
   map_size (counters
      (increment collation_compare
         (increment collation_compare no_metrics ''m'' 1 (Some tags_a_first))
         ''m'' 1 (Some tags_a_last))) = 2"
proof -
  have same: "same_tags tags_a_first tags_a_last"
    by (auto simp add: same_tags_def tags_a_first_def tags_a_last_def)
  have zero: "collation_compare ''a'' [CHR ''a'', CHR 0x01] = 0"
    by (simp add: cmp_defs)
  have k1: "getKey collation_compare ''m'' (Some tags_a_first)
              = ''m{a:1,a'' @ [CHR 0x01] @ '':2}''"
    by (simp add: getKey_def by_name_def tags_a_first_def cmp_defs)
  have k2: "getKey collation_compare ''m'' (Some tags_a_last)
              = ''m{a'' @ [CHR 0x01] @ '':2,a:1}''"
    by (simp add: getKey_def by_name_def tags_a_last_def cmp_defs)
  have differ: "getKey collation_compare ''m'' (Some tags_a_first)
                  \<noteq> getKey collation_compare ''m'' (Some tags_a_last)"
    unfolding k1 k2 by simp
  have two: "map_size (counters
      (increment collation_compare
         (increment collation_compare no_metrics ''m'' 1 (Some tags_a_first))
         ''m'' 1 (Some tags_a_last))) = 2"
    unfolding increment_def k1 k2 by (simp add: no_metrics_def map_size_def)
  from same zero k1 k2 differ two show ?thesis by (intro conjI)
qed

text \<open>
  \<^bold>\<open>C10\<close>, amended. Take any metric name and any two tag records that are equal as sets of
  key-value pairs and whose tag names \<^verbatim>\<open>localeCompare\<close> tells apart: it orders them and
  answers 0 for no two different names. Then \<^verbatim>\<open>getKey\<close> builds the same key for both. An
  \<^verbatim>\<open>increment\<close> with one ordering followed by an \<^verbatim>\<open>increment\<close> with the other adds both
  values to one counter and the second adds no entry; a \<^verbatim>\<open>gauge\<close> set with one ordering is
  stored under the key of the other; two \<^verbatim>\<open>histogram\<close> calls, one with each ordering, end
  one list with the two values; an operation recorded with one ordering is reported by
  \<^verbatim>\<open>getOperationStats\<close> with the other, with its count, total time and errors added to
  the entry; and on every collector each of the five operations gives the same result
  for both orderings.
\<close>

theorem metric_key_ignores_tag_order:
  assumes "same_tags t1 t2" and "orders_names localeCompare (map fst t1)"
  shows
    "getKey localeCompare name (Some t1) = getKey localeCompare name (Some t2) \<and>
     map_get (counters (increment localeCompare (increment localeCompare mc name v (Some t1))
                          name w (Some t2)))
             (getKey localeCompare name (Some t1))
       = Some ((case map_get (counters mc) (getKey localeCompare name (Some t1)) of
                  None \<Rightarrow> 0 | Some c \<Rightarrow> c) + v + w) \<and>
     map_size (counters (increment localeCompare (increment localeCompare mc name v (Some t1))
                           name w (Some t2)))
       = map_size (counters (increment localeCompare mc name v (Some t1))) \<and>
     map_get (gauges (gauge localeCompare mc name v (Some t1)))
             (getKey localeCompare name (Some t2)) = Some v \<and>
     (\<exists>earlier.
        map_get (histograms (histogram localeCompare (histogram localeCompare mc name v (Some t1))
                               name w (Some t2)))
                (getKey localeCompare name (Some t1))
          = Some (earlier @ [v, w])) \<and>
     (\<exists>report.
        getOperationStats localeCompare
            (recordOperation localeCompare mc name duration err (Some t1)) name (Some t2)
          = Some report \<and>
        stat_count (report_stats report)
          = (case map_get (operationStats mc) (getKey localeCompare name (Some t1)) of
               None \<Rightarrow> 0 | Some st \<Rightarrow> stat_count st) + 1 \<and>
        totalTime (report_stats report)
          = (case map_get (operationStats mc) (getKey localeCompare name (Some t1)) of
               None \<Rightarrow> 0 | Some st \<Rightarrow> totalTime st) + duration \<and>
        stat_errors (report_stats report)
          = (case map_get (operationStats mc) (getKey localeCompare name (Some t1)) of
               None \<Rightarrow> 0 | Some st \<Rightarrow> stat_errors st) + (if err then 1 else 0)) \<and>
     increment localeCompare mc name v (Some t1) = increment localeCompare mc name v (Some t2) \<and>
     gauge localeCompare mc name v (Some t1) = gauge localeCompare mc name v (Some t2) \<and>
     histogram localeCompare mc name v (Some t1) = histogram localeCompare mc name v (Some t2) \<and>
     recordOperation localeCompare mc name duration err (Some t1)
       = recordOperation localeCompare mc name duration err (Some t2) \<and>
     getOperationStats localeCompare mc name (Some t1)
       = getOperationStats localeCompare mc name (Some t2)"
proof -
  have key: "getKey localeCompare name (Some t2) = getKey localeCompare name (Some t1)"
    using assms by (rule getKey_same_tags [symmetric])
  let ?k = "getKey localeCompare name (Some t1)"
  let ?mc1 = "increment localeCompare mc name v (Some t1)"
  let ?h1 = "histogram localeCompare mc name v (Some t1)"
  have c1: "getKey localeCompare name (Some t1) = getKey localeCompare name (Some t2)"
    using key by simp
  have first: "map_get (counters ?mc1) ?k
      = Some ((case map_get (counters mc) ?k of None \<Rightarrow> 0 | Some c \<Rightarrow> c) + v)"
    by (rule increment_adds)
  have "map_get (counters (increment localeCompare ?mc1 name w (Some t2)))
          (getKey localeCompare name (Some t2))
      = Some ((case map_get (counters ?mc1) (getKey localeCompare name (Some t2)) of
                 None \<Rightarrow> 0 | Some c \<Rightarrow> c) + w)"
    by (rule increment_adds)
  then have c2: "map_get (counters (increment localeCompare ?mc1 name w (Some t2))) ?k
      = Some ((case map_get (counters mc) ?k of None \<Rightarrow> 0 | Some c \<Rightarrow> c) + v + w)"
    unfolding key first by simp
  have c3: "map_size (counters (increment localeCompare ?mc1 name w (Some t2)))
      = map_size (counters ?mc1)"
    using key by (rule increment_again_size)
  have "map_get (gauges (gauge localeCompare mc name v (Some t1))) ?k = Some v"
    by (rule gauge_sets)
  then have c4: "map_get (gauges (gauge localeCompare mc name v (Some t1)))
      (getKey localeCompare name (Some t2)) = Some v"
    unfolding key .
  obtain before where before: "map_get (histograms ?h1) ?k = Some (before @ [v])"
    using histogram_pushes [of localeCompare mc name v "Some t1"] by blast
  then have "map_get (histograms ?h1) (getKey localeCompare name (Some t2))
      = Some (before @ [v])"
    unfolding key .
  then have "\<exists>earlier. map_get (histograms (histogram localeCompare ?h1 name w (Some t2)))
      (getKey localeCompare name (Some t2)) = Some (earlier @ [v, w])"
    by (rule histogram_pushes_after)
  then have c5: "\<exists>earlier. map_get (histograms (histogram localeCompare ?h1 name w (Some t2))) ?k
      = Some (earlier @ [v, w])"
    unfolding key .
  have same_stats: "\<And>m. getOperationStats localeCompare m name (Some t2)
      = getOperationStats localeCompare m name (Some t1)"
    by (simp add: getOperationStats_def key)
  have c6: "\<exists>report.
      getOperationStats localeCompare
          (recordOperation localeCompare mc name duration err (Some t1)) name (Some t2)
        = Some report \<and>
      stat_count (report_stats report)
        = (case map_get (operationStats mc) ?k of None \<Rightarrow> 0 | Some st \<Rightarrow> stat_count st) + 1 \<and>
      totalTime (report_stats report)
        = (case map_get (operationStats mc) ?k of None \<Rightarrow> 0 | Some st \<Rightarrow> totalTime st)
            + duration \<and>
      stat_errors (report_stats report)
        = (case map_get (operationStats mc) ?k of None \<Rightarrow> 0 | Some st \<Rightarrow> stat_errors st)
            + (if err then 1 else 0)"
    unfolding same_stats by (rule recordOperation_reported)
  have c7: "increment localeCompare mc name v (Some t1)
      = increment localeCompare mc name v (Some t2)"
    by (simp add: increment_def key)
  have c8: "gauge localeCompare mc name v (Some t1) = gauge localeCompare mc name v (Some t2)"
    by (simp add: gauge_def key)
  have c9: "histogram localeCompare mc name v (Some t1)
      = histogram localeCompare mc name v (Some t2)"
    by (simp add: histogram_def key)
  have c10: "recordOperation localeCompare mc name duration err (Some t1)
      = recordOperation localeCompare mc name duration err (Some t2)"
    by (simp add: recordOperation_def key)
  have c11: "getOperationStats localeCompare mc name (Some t1)
      = getOperationStats localeCompare mc name (Some t2)"
    by (simp add: same_stats)
  from c1 c2 c3 c4 c5 c6 c7 c8 c9 c10 c11 show ?thesis
    by (intro conjI)
qed

theorem metric_key_ignores_tag_order_witness:
  "same_tags tags_reason_first tags_env_first \<and>
   orders_names collation_compare (map fst tags_reason_first) \<and>
   getKey collation_compare ''recovery.attempts'' (Some tags_reason_first)
     = ''recovery.attempts{env:prod,reason:memory}'' \<and>
   getKey collation_compare ''recovery.attempts'' (Some tags_env_first)
     = ''recovery.attempts{env:prod,reason:memory}'' \<and>
   map_get (counters
      (increment collation_compare
         (increment collation_compare no_metrics ''recovery.attempts'' 1
            (Some tags_reason_first))
         ''recovery.attempts'' 2 (Some tags_env_first)))
      ''recovery.attempts{env:prod,reason:memory}'' = Some 3 \<and>
   map_size (counters
      (increment collation_compare
         (increment collation_compare no_metrics ''recovery.attempts'' 1
            (Some tags_reason_first))
         ''recovery.attempts'' 2 (Some tags_env_first))) = 1 \<and>
   map_get (gauges (gauge collation_compare no_metrics ''recovery.attempts'' 4
                      (Some tags_reason_first)))
      (getKey collation_compare ''recovery.attempts'' (Some tags_env_first)) = Some 4 \<and>
   (\<exists>earlier.
      map_get (histograms
         (histogram collation_compare
            (histogram collation_compare no_metrics ''recovery.attempts'' 1
               (Some tags_reason_first))
            ''recovery.attempts'' 2 (Some tags_env_first)))
         ''recovery.attempts{env:prod,reason:memory}'' = Some (earlier @ [1, 2])) \<and>
   (\<exists>report.
      getOperationStats collation_compare
          (recordOperation collation_compare no_metrics ''recovery.attempts'' 10 False
             (Some tags_reason_first))
          ''recovery.attempts'' (Some tags_env_first) = Some report \<and>
      stat_count (report_stats report) = 1 \<and>
      totalTime (report_stats report) = 10 \<and>
      stat_errors (report_stats report) = 0)"
proof -
  have same: "same_tags tags_reason_first tags_env_first"
    by (auto simp add: same_tags_def tags_reason_first_def tags_env_first_def)
  have ord: "orders_names collation_compare (map fst tags_reason_first)"
    by (simp add: orders_names_def tags_reason_first_def cmp_defs)
  have k: "getKey collation_compare ''recovery.attempts'' (Some tags_env_first)
             = ''recovery.attempts{env:prod,reason:memory}''"
    by (simp add: getKey_def tags_env_first_def by_name_def cmp_defs)
  note counted =
    metric_key_ignores_tag_order
      [OF same ord, of "''recovery.attempts''" no_metrics 1 2 10 False]
  note gauged =
    metric_key_ignores_tag_order
      [OF same ord, of "''recovery.attempts''" no_metrics 4 0 0 False]
  from counted have keys:
    "getKey collation_compare ''recovery.attempts'' (Some tags_reason_first)
       = getKey collation_compare ''recovery.attempts'' (Some tags_env_first)"
    by (rule conjunct1)
  have k': "getKey collation_compare ''recovery.attempts'' (Some tags_reason_first)
              = ''recovery.attempts{env:prod,reason:memory}''"
    unfolding keys by (rule k)
  have none: "map_get (counters no_metrics) ''recovery.attempts{env:prod,reason:memory}'' = None"
    by (simp add: no_metrics_def)
  have "map_get (counters
      (increment collation_compare
         (increment collation_compare no_metrics ''recovery.attempts'' 1
            (Some tags_reason_first))
         ''recovery.attempts'' 2 (Some tags_env_first)))
      (getKey collation_compare ''recovery.attempts'' (Some tags_reason_first))
    = Some ((case map_get (counters no_metrics)
                    (getKey collation_compare ''recovery.attempts'' (Some tags_reason_first)) of
               None \<Rightarrow> 0 | Some c \<Rightarrow> c) + 1 + 2)"
    by (rule counted [THEN conjunct2, THEN conjunct1])
  then have three: "map_get (counters
      (increment collation_compare
         (increment collation_compare no_metrics ''recovery.attempts'' 1
            (Some tags_reason_first))
         ''recovery.attempts'' 2 (Some tags_env_first)))
      ''recovery.attempts{env:prod,reason:memory}'' = Some 3"
    unfolding k' none by simp
  have "map_size (counters
      (increment collation_compare
         (increment collation_compare no_metrics ''recovery.attempts'' 1
            (Some tags_reason_first))
         ''recovery.attempts'' 2 (Some tags_env_first)))
    = map_size (counters
        (increment collation_compare no_metrics ''recovery.attempts'' 1
           (Some tags_reason_first)))"
    by (rule counted [THEN conjunct2, THEN conjunct2, THEN conjunct1])
  also have "\<dots> = 1"
    unfolding increment_def k' by (simp add: no_metrics_def map_size_def)
  finally have one: "map_size (counters
      (increment collation_compare
         (increment collation_compare no_metrics ''recovery.attempts'' 1
            (Some tags_reason_first))
         ''recovery.attempts'' 2 (Some tags_env_first))) = 1" .
  have four: "map_get (gauges (gauge collation_compare no_metrics ''recovery.attempts'' 4
                      (Some tags_reason_first)))
      (getKey collation_compare ''recovery.attempts'' (Some tags_env_first)) = Some 4"
    by (rule gauged [THEN conjunct2, THEN conjunct2, THEN conjunct2, THEN conjunct1])
  have pushed: "\<exists>earlier.
      map_get (histograms
         (histogram collation_compare
            (histogram collation_compare no_metrics ''recovery.attempts'' 1
               (Some tags_reason_first))
            ''recovery.attempts'' 2 (Some tags_env_first)))
         ''recovery.attempts{env:prod,reason:memory}'' = Some (earlier @ [1, 2])"
    using counted [THEN conjunct2, THEN conjunct2, THEN conjunct2, THEN conjunct2,
                   THEN conjunct1]
    unfolding k' .
  have no_stats:
    "map_get (operationStats no_metrics) ''recovery.attempts{env:prod,reason:memory}'' = None"
    by (simp add: no_metrics_def)
  have reported: "\<exists>report.
      getOperationStats collation_compare
          (recordOperation collation_compare no_metrics ''recovery.attempts'' 10 False
             (Some tags_reason_first))
          ''recovery.attempts'' (Some tags_env_first) = Some report \<and>
      stat_count (report_stats report) = 1 \<and>
      totalTime (report_stats report) = 10 \<and>
      stat_errors (report_stats report) = 0"
    using counted [THEN conjunct2, THEN conjunct2, THEN conjunct2, THEN conjunct2,
                   THEN conjunct2, THEN conjunct1]
    unfolding k' no_stats by simp
  from same ord k' k three one four pushed reported show ?thesis by (intro conjI)
qed

end
